theory Spec2Isabelle
  imports Main
begin

section \<open>JavaScript strings and numbers used by the sources\<close>

text \<open>\<^verbatim>\<open>s.startsWith(p)\<close> on strings as character lists.\<close>

fun starts_with :: "string \<Rightarrow> string \<Rightarrow> bool" where
  "starts_with s [] = True"
| "starts_with [] (p # ps) = False"
| "starts_with (c # cs) (p # ps) = (c = p \<and> starts_with cs ps)"

text \<open>\<^verbatim>\<open>s.includes(sub)\<close>: \<open>sub\<close> occurs in \<open>s\<close> as a contiguous substring.\<close>

fun includes_str :: "string \<Rightarrow> string \<Rightarrow> bool" where
  "includes_str [] sub = (sub = [])"
| "includes_str (c # cs) sub = (starts_with (c # cs) sub \<or> includes_str cs sub)"

text \<open>\<^verbatim>\<open>arr.some(p)\<close>.\<close>

fun some :: "('a \<Rightarrow> bool) \<Rightarrow> 'a list \<Rightarrow> bool" where
  "some p [] = False"
| "some p (x # xs) = (p x \<or> some p xs)"

text \<open>
  The value of \<^verbatim>\<open>Math.ceil(a / b)\<close> for whole numbers \<open>a\<close> and \<open>b\<close>: division by zero
  gives an infinity or NaN in JavaScript, it does not raise.
\<close>

datatype js_num = Num int | PosInf | NegInf | NaN

definition ceil_div :: "int \<Rightarrow> int \<Rightarrow> js_num" where
  "ceil_div a b =
     (if b = 0 then (if 0 < a then PosInf else if a < 0 then NegInf else NaN)
      else Num (- ((- a) div b)))"

text \<open>The loop test \<^verbatim>\<open>i < maxAttempts\<close> for a counter \<open>i\<close>; any comparison with NaN is false.\<close>

fun js_lt :: "nat \<Rightarrow> js_num \<Rightarrow> bool" where
  "js_lt i (Num m) = (int i < m)"
| "js_lt i PosInf = True"
| "js_lt i NegInf = False"
| "js_lt i NaN = False"

section \<open>Condition poller (\<^verbatim>\<open>pollForCondition\<close>)\<close>

text \<open>
  One invocation of \<^verbatim>\<open>checkFn\<close> either returns an object, of which the poller reads
  the \<^verbatim>\<open>ready\<close> flag and passes the rest through, or throws an error with a message.
  The check function is given by the outcome of its \<open>k\<close>-th invocation (counted from 0).
\<close>

datatype 'a check_outcome = Returns bool 'a | Throws string

text \<open>The objects \<^verbatim>\<open>pollForCondition\<close> returns; an absent flag is \<open>False\<close>, as it is falsy.\<close>

record 'a poll_result =
  ready :: bool
  fatalError :: bool
  tooManyErrors :: bool
  timedOut :: bool
  poll_error :: "string option"
  payload :: "'a option"

definition check_result :: "bool \<Rightarrow> 'a \<Rightarrow> 'a poll_result" where
  "check_result r v = \<lparr>ready = r, fatalError = False, tooManyErrors = False, timedOut = False,
     poll_error = None, payload = Some v\<rparr>"

definition fatal_result :: "string \<Rightarrow> 'a poll_result" where
  "fatal_result m = \<lparr>ready = False, fatalError = True, tooManyErrors = False, timedOut = False,
     poll_error = Some m, payload = None\<rparr>"

definition too_many_result :: "string \<Rightarrow> 'a poll_result" where
  "too_many_result m = \<lparr>ready = False, fatalError = False, tooManyErrors = True, timedOut = False,
     poll_error = Some m, payload = None\<rparr>"

definition timed_out_result :: "'a poll_result" where
  "timed_out_result = \<lparr>ready = False, fatalError = False, tooManyErrors = False, timedOut = True,
     poll_error = None, payload = None\<rparr>"

text \<open>The lines written through \<^verbatim>\<open>log\<close>, by the place that writes them.\<close>

datatype poll_log =
    LogReady nat
  | LogProgress nat
  | LogError nat string
  | LogFatal
  | LogTooMany nat
  | LogTimeout

definition fatalErrors :: "string list" where
  "fatalErrors = [''detached Frame'', ''Session closed'', ''Target closed'',
     ''Browser disconnected'', ''not defined'']"

definition is_fatal :: "string \<Rightarrow> bool" where
  "is_fatal m = some (\<lambda>err. includes_str m err) fatalErrors"

text \<open>
  The \<^verbatim>\<open>for\<close> loop of \<^verbatim>\<open>pollForCondition\<close>, from iteration \<open>i\<close> with the current
  \<^verbatim>\<open>consecutiveErrors\<close>. It returns the result object, the number of times
  \<^verbatim>\<open>checkFn\<close> was invoked and the log. With \<^verbatim>\<open>interval = 0\<close> the bound is infinite and
  the loop need not end, so the function is partial: \<open>None\<close> is a poll that never returns.
\<close>

partial_function (option) poll_loop ::
  "(nat \<Rightarrow> 'a check_outcome) \<Rightarrow> int \<Rightarrow> js_num \<Rightarrow> nat \<Rightarrow> nat \<Rightarrow> poll_log list
     \<Rightarrow> ('a poll_result \<times> nat \<times> poll_log list) option" where
  "poll_loop checkFn interval maxAttempts i consecutiveErrors lg =
     (if js_lt i maxAttempts then
        (case checkFn i of
           Returns r v \<Rightarrow>
             if r then Some (check_result r v, i + 1, lg @ [LogReady i])
             else poll_loop checkFn interval maxAttempts (i + 1) 0
                    (if (int i * interval) mod 3000 = 0 then lg @ [LogProgress i] else lg)
         | Throws m \<Rightarrow>
             if is_fatal m
             then Some (fatal_result m, i + 1, lg @ [LogError i (take 50 m), LogFatal])
             else if consecutiveErrors + 1 \<ge> 5
             then Some (too_many_result m, i + 1,
                    lg @ [LogError i (take 50 m), LogTooMany (consecutiveErrors + 1)])
             else poll_loop checkFn interval maxAttempts (i + 1) (consecutiveErrors + 1)
                    (lg @ [LogError i (take 50 m)]))
      else Some (timed_out_result, i, lg @ [LogTimeout]))"

definition pollForCondition ::
  "(nat \<Rightarrow> 'a check_outcome) \<Rightarrow> int \<Rightarrow> int \<Rightarrow> ('a poll_result \<times> nat \<times> poll_log list) option" where
  "pollForCondition checkFn timeout interval =
     poll_loop checkFn interval (ceil_div timeout interval) 0 0 []"

section \<open>Selective proxy (\<^verbatim>\<open>createSelectiveProxy\<close>, the \<^verbatim>\<open>connect\<close> handler)\<close>



























section \<open>Browser pool (\<^verbatim>\<open>createBrowserPool\<close>)\<close>

text \<open>
  The pool object. A browser handle is identified by a number, times are milliseconds as
  \<^verbatim>\<open>Date.now()\<close> gives them, \<^verbatim>\<open>null\<close> is \<open>None\<close>. \<^verbatim>\<open>idleTimer\<close> holds the
  identifier \<^verbatim>\<open>setTimeout\<close> returned.
\<close>

record browserPool =
  browser :: "nat option"
  pid :: "nat option"
  lastUsed :: "int option"
  createdAt :: "int option"
  inUse :: bool
  idleTimeout :: int
  maxAge :: int
  idleTimer :: "nat option"
  urlHistory :: "string list"
  taskHistory :: "string list"

text \<open>
  The pool together with the timers of the runtime that are still to fire, each with its
  identifier and the time it is due, and the next identifier \<^verbatim>\<open>setTimeout\<close> hands out.
  Every timer here was set by \<^verbatim>\<open>release\<close>, so its callback is the idle callback.
\<close>

record world =
  pool :: browserPool
  timers :: "(nat \<times> int) list"
  next_timer :: nat

definition createBrowserPool :: browserPool where
  "createBrowserPool = \<lparr>browser = None, pid = None, lastUsed = None, createdAt = None,
     inUse = False, idleTimeout = 5 * 60 * 1000, maxAge = 10 * 60 * 1000, idleTimer = None,
     urlHistory = [], taskHistory = []\<rparr>"

definition initial_world :: world where
  "initial_world = \<lparr>pool = createBrowserPool, timers = [], next_timer = 0\<rparr>"

definition clearTimeout :: "nat \<Rightarrow> world \<Rightarrow> world" where
  "clearTimeout t w = w\<lparr>timers := filter (\<lambda>(i, due). i \<noteq> t) (timers w)\<rparr>"

definition setTimeout :: "int \<Rightarrow> int \<Rightarrow> world \<Rightarrow> nat \<times> world" where
  "setTimeout delay now w =
     (next_timer w,
      w\<lparr>timers := timers w @ [(next_timer w, now + delay)], next_timer := next_timer w + 1\<rparr>)"

text \<open>
  What the outside world answers during one operation: the clock, whether
  \<^verbatim>\<open>browser.close()\<close> and the liveness probe \<^verbatim>\<open>browser.pages()\<close> succeed on a handle,
  and what \<^verbatim>\<open>puppeteer.launch\<close> does with the arguments: a new handle with the process
  id of its process (\<^verbatim>\<open>null\<close> when it has none), or an exception.
\<close>

datatype launch_result = Launched nat "nat option" | LaunchFailed string

record browser_env =
  now :: int
  close_ok :: "nat \<Rightarrow> bool"
  probe_ok :: "nat \<Rightarrow> bool"
  launch :: "string list \<Rightarrow> launch_result"

text \<open>What an operation does to browser processes and writes to the log.\<close>

datatype pool_action =
    CloseBrowser nat
  | LaunchBrowser "string list"
  | KillProcess nat
  | LogTooOld
  | LogCloseError
  | LogReusing
  | LogCachedDisconnected
  | LogLaunching
  | LogLaunched "nat option"
  | LogIdleClose
  | LogReleased
  | LogClosing

record browser_result =
  res_browser :: nat
  res_pid :: "nat option"
  cached :: bool

text \<open>The part of \<^verbatim>\<open>getBrowser\<close> from \<^verbatim>\<open>// Launch new browser\<close> on.
  \<^verbatim>\<open>COMMON_BROWSER_ARGS\<close> is a constant of the configuration module, a parameter here.\<close>

definition launch_new ::
  "string list \<Rightarrow> browser_env \<Rightarrow> string list \<Rightarrow> world \<Rightarrow> pool_action list
     \<Rightarrow> (string + browser_result) \<times> world \<times> pool_action list" where
  "launch_new COMMON_BROWSER_ARGS env browserArgs w acts =
     (let allArgs = COMMON_BROWSER_ARGS
                      @ filter (\<lambda>arg. arg \<notin> set COMMON_BROWSER_ARGS) browserArgs;
          acts1 = acts @ [LogLaunching, LaunchBrowser allArgs]
      in case launch env allArgs of
           LaunchFailed m \<Rightarrow> (Inl m, w, acts1)
         | Launched b p \<Rightarrow>
             (Inr \<lparr>res_browser = b, res_pid = p, cached = False\<rparr>,
              w\<lparr>pool := (pool w)\<lparr>browser := Some b, pid := p, lastUsed := Some (now env),
                   createdAt := Some (now env), inUse := True, urlHistory := [],
                   taskHistory := []\<rparr>\<rparr>,
              acts1 @ [LogLaunched p]))"

text \<open>\<^verbatim>\<open>getBrowser(browserArgs, log)\<close>. \<open>Inl\<close> is the exception of a failed launch, which
  the function lets through to its caller.\<close>

definition getBrowser ::
  "string list \<Rightarrow> browser_env \<Rightarrow> string list \<Rightarrow> world
     \<Rightarrow> (string + browser_result) \<times> world \<times> pool_action list" where
  "getBrowser COMMON_BROWSER_ARGS env browserArgs w0 =
     (let w = (case idleTimer (pool w0) of
                 None \<Rightarrow> w0
               | Some t \<Rightarrow> (clearTimeout t w0)\<lparr>pool := (pool w0)\<lparr>idleTimer := None\<rparr>\<rparr>)
      in case browser (pool w) of
           None \<Rightarrow> launch_new COMMON_BROWSER_ARGS env browserArgs w []
         | Some b \<Rightarrow>
             (let age = now env - (case createdAt (pool w) of None \<Rightarrow> 0 | Some c \<Rightarrow> c)
              in if age > maxAge (pool w)
                 then launch_new COMMON_BROWSER_ARGS env browserArgs
                        (w\<lparr>pool := (pool w)\<lparr>browser := None, pid := None\<rparr>\<rparr>)
                        ([LogTooOld, CloseBrowser b]
                         @ (if close_ok env b then [] else [LogCloseError]))
                 else if probe_ok env b
                 then (Inr \<lparr>res_browser = b, res_pid = pid (pool w), cached = True\<rparr>,
                       w\<lparr>pool := (pool w)\<lparr>lastUsed := Some (now env), inUse := True\<rparr>\<rparr>,
                       [LogReusing])
                 else launch_new COMMON_BROWSER_ARGS env browserArgs
                        (w\<lparr>pool := (pool w)\<lparr>browser := None, pid := None\<rparr>\<rparr>)
                        [LogCachedDisconnected]))"

text \<open>The listener for \<^verbatim>\<open>disconnected\<close> that \<^verbatim>\<open>getBrowser\<close> registers on the handle
  \<open>b\<close> it launched.\<close>

definition on_disconnected :: "nat \<Rightarrow> world \<Rightarrow> world" where
  "on_disconnected b w =
     (if browser (pool w) = Some b
      then w\<lparr>pool := (pool w)\<lparr>browser := None, pid := None, inUse := False\<rparr>\<rparr>
      else w)"

text \<open>The callback \<^verbatim>\<open>release\<close> hands to \<^verbatim>\<open>setTimeout\<close>.\<close>

definition idle_callback :: "browser_env \<Rightarrow> world \<Rightarrow> world \<times> pool_action list" where
  "idle_callback env w =
     (case browser (pool w) of
        None \<Rightarrow> (w, [])
      | Some b \<Rightarrow>
          if \<not> inUse (pool w)
          then (w\<lparr>pool := (pool w)\<lparr>browser := None, pid := None\<rparr>\<rparr>, [LogIdleClose, CloseBrowser b])
          else (w, []))"

text \<open>\<^verbatim>\<open>release(log)\<close>.\<close>

definition release :: "browser_env \<Rightarrow> world \<Rightarrow> world \<times> pool_action list" where
  "release env w0 =
     (let w1 = w0\<lparr>pool := (pool w0)\<lparr>inUse := False, lastUsed := Some (now env)\<rparr>\<rparr>;
          w2 = (case idleTimer (pool w1) of None \<Rightarrow> w1 | Some t \<Rightarrow> clearTimeout t w1);
          (t, w3) = setTimeout (idleTimeout (pool w2)) (now env) w2
      in (w3\<lparr>pool := (pool w3)\<lparr>idleTimer := Some t\<rparr>\<rparr>, [LogReleased]))"

text \<open>The runtime fires the timer \<open>t\<close> at time \<^verbatim>\<open>now\<close>: nothing happens unless the timer is
  still set and due; otherwise it leaves the table and its callback runs.\<close>

definition fire_timer :: "nat \<Rightarrow> browser_env \<Rightarrow> world \<Rightarrow> world \<times> pool_action list" where
  "fire_timer t env w =
     (if some (\<lambda>(i, due). i = t \<and> due \<le> now env) (timers w)
      then idle_callback env (clearTimeout t w)
      else (w, []))"

text \<open>\<^verbatim>\<open>close(log)\<close>.\<close>

definition close_pool :: "browser_env \<Rightarrow> world \<Rightarrow> world \<times> pool_action list" where
  "close_pool env w0 =
     (let w = (case idleTimer (pool w0) of
                 None \<Rightarrow> w0
               | Some t \<Rightarrow> (clearTimeout t w0)\<lparr>pool := (pool w0)\<lparr>idleTimer := None\<rparr>\<rparr>)
      in case browser (pool w) of
           None \<Rightarrow> (w, [])
         | Some b \<Rightarrow>
             (w\<lparr>pool := (pool w)\<lparr>browser := None, pid := None, inUse := False,
                  urlHistory := [], taskHistory := [], createdAt := None\<rparr>\<rparr>,
              [LogClosing, CloseBrowser b]
              @ (if close_ok env b then []
                 else (case pid (pool w) of
                         None \<Rightarrow> []
                       | Some p \<Rightarrow> if p = 0 then [] else [KillProcess p]))))"

text \<open>The fields of \<^verbatim>\<open>getStatus()\<close> the properties below read.\<close>

definition hasInstance :: "world \<Rightarrow> bool" where
  "hasInstance w = (browser (pool w) \<noteq> None)"

text \<open>The first argument list \<^verbatim>\<open>getBrowser\<close> passes to \<^verbatim>\<open>puppeteer.launch\<close>.\<close>

definition all_args :: "string list \<Rightarrow> string list \<Rightarrow> string list" where
  "all_args COMMON_BROWSER_ARGS browserArgs =
     COMMON_BROWSER_ARGS @ filter (\<lambda>arg. arg \<notin> set COMMON_BROWSER_ARGS) browserArgs"

text \<open>\<^verbatim>\<open>Date.now() - (this.createdAt || 0)\<close>.\<close>

definition age_at :: "int \<Rightarrow> world \<Rightarrow> int" where
  "age_at t w = t - (case createdAt (pool w) of None \<Rightarrow> 0 | Some c \<Rightarrow> c)"

text \<open>
  Sequences of operations on one pool: calls of its methods, by any caller, and the two
  things the runtime does to it, firing a timer and reporting that a browser disconnected.
\<close>

datatype pool_op =
    OpGetBrowser browser_env "string list"
  | OpRelease browser_env
  | OpClose browser_env
  | OpFireTimer nat browser_env
  | OpDisconnected nat

fun apply_op :: "string list \<Rightarrow> world \<Rightarrow> pool_op \<Rightarrow> world" where
  "apply_op C w (OpGetBrowser env args) = fst (snd (getBrowser C env args w))"
| "apply_op C w (OpRelease env) = fst (release env w)"
| "apply_op C w (OpClose env) = fst (close_pool env w)"
| "apply_op C w (OpFireTimer t env) = fst (fire_timer t env w)"
| "apply_op C w (OpDisconnected b) = on_disconnected b w"

text \<open>A new pool whose \<^verbatim>\<open>idleTimeout\<close> and \<^verbatim>\<open>maxAge\<close> were then set to \<open>T\<close> and \<open>M\<close>.\<close>

definition world_with :: "int \<Rightarrow> int \<Rightarrow> world" where
  "world_with T M = initial_world\<lparr>pool := createBrowserPool\<lparr>idleTimeout := T, maxAge := M\<rparr>\<rparr>"

definition run_ops :: "string list \<Rightarrow> int \<Rightarrow> int \<Rightarrow> pool_op list \<Rightarrow> world" where
  "run_ops C T M ops = foldl (apply_op C) (world_with T M) ops"


text \<open>Environments and a world used in the examples below: at time \<open>t\<close> every
  close and probe succeeds and a launch gives handle \<open>b\<close> with process id \<open>p\<close>.\<close>

definition env_at :: "int \<Rightarrow> nat \<Rightarrow> nat \<Rightarrow> browser_env" where
  "env_at t b p = \<lparr>now = t, close_ok = (\<lambda>h. True), probe_ok = (\<lambda>h. True),
     launch = (\<lambda>args. Launched b (Some p))\<rparr>"

definition launched_world :: world where
  "launched_world = \<lparr>pool = \<lparr>browser = Some 1, pid = Some 4242, lastUsed = Some 0,
      createdAt = Some 0, inUse = True, idleTimeout = 300000, maxAge = 600000,
      idleTimer = None, urlHistory = [], taskHistory = []\<rparr>, timers = [], next_timer = 0\<rparr>"

section \<open>Tasks\<close>

text \<open>
  A property of a JavaScript object that may be missing (\<^verbatim>\<open>undefined\<close>), \<^verbatim>\<open>null\<close> or hold
  a value; how a template literal prints it; whether it is truthy; and \<^verbatim>\<open>a || b\<close>.
\<close>

datatype 'a nullable = Undefined | Null | Val 'a

fun tpl :: "string nullable \<Rightarrow> string" where
  "tpl Undefined = ''undefined''"
| "tpl Null = ''null''"
| "tpl (Val s) = s"

fun truthy :: "string nullable \<Rightarrow> bool" where
  "truthy (Val s) = (s \<noteq> [])"
| "truthy v = False"

definition js_or :: "string nullable \<Rightarrow> string nullable \<Rightarrow> string nullable" where
  "js_or a b = (if truthy a then a else b)"

text \<open>A natural number printed in decimal, as a template literal prints it.\<close>

definition digit_char :: "nat \<Rightarrow> char" where
  "digit_char d = ''0123456789'' ! d"

fun show_nat :: "nat \<Rightarrow> string" where
  "show_nat n = (if n < 10 then [digit_char n] else show_nat (n div 10) @ [digit_char (n mod 10)])"

declare show_nat.simps [simp del]

text \<open>A subtask of a chained task and a task. Status values are the strings the code
  writes and compares.\<close>

record subtask =
  s_type :: "string nullable"
  s_psm :: "string nullable"
  s_env :: "string nullable"
  s_idl_branch :: "string nullable"
  s_idl_version :: "string nullable"
  s_api_group_id :: "string nullable"
  s_status :: string
  s_logs :: "string list"
  s_startTime :: "string nullable"
  s_endTime :: "string nullable"
  s_error :: "string nullable"
  s_result :: "string nullable"
  s_stage :: "string nullable"

record task =
  t_type :: "string nullable"
  t_name :: "string nullable"
  t_psm :: "string nullable"
  t_env :: "string nullable"
  t_idl_branch :: "string nullable"
  t_idl_version :: "string nullable"
  t_api_group_id :: "string nullable"
  t_dry_run :: "bool nullable"
  t_isChained :: bool
  t_subtasks :: "subtask list option"
  t_currentIndex :: "nat nullable"
  t_status :: string
  t_stage :: "string nullable"
  t_logs :: "string list"
  t_startTime :: "string nullable"
  t_endTime :: "string nullable"
  t_error :: "string nullable"
  t_result :: "string nullable"

record screenshot =
  label :: string
  data :: string
  time :: string

text \<open>The line \<^verbatim>\<open>log\<close> appends to \<^verbatim>\<open>task.logs\<close>: the message after a time stamp. The clock
  reading \<^verbatim>\<open>new Date().toISOString()\<close> is a parameter of each operation.\<close>

definition log_line :: "string \<Rightarrow> string \<Rightarrow> string" where
  "log_line ts msg = ''['' @ ts @ ''] '' @ msg"

section \<open>Chained task runner (\<^verbatim>\<open>runChainedTask\<close>)\<close>

text \<open>
  What one run of a task runner on a temporary task does, as far as \<^verbatim>\<open>runChainedTask\<close>
  can see it: the temporary task object as the runner left it, the screenshots stored
  under the temporary id afterwards (\<open>None\<close> when the entry is gone), and the message of the
  exception when the runner's promise was rejected.
\<close>

record runner_result =
  rr_task :: task
  rr_screenshots :: "screenshot list option"
  rr_thrown :: "string option"

type_synonym runner = "string \<Rightarrow> task \<Rightarrow> runner_result"

text \<open>The dependencies of the runner: the clock, \<^verbatim>\<open>JSON.stringify\<close> of the parameter
  object logged for a subtask, and the two runners handed to
  \<^verbatim>\<open>createChainedTaskRunner\<close> as \<^verbatim>\<open>runJanusTask\<close> and \<^verbatim>\<open>runWorkorderTask\<close>.\<close>

record chain_ctx =
  clock :: string
  json_params :: "subtask \<Rightarrow> string"
  janusRunner :: runner
  workorderRunner :: runner

text \<open>
  The state \<^verbatim>\<open>runChainedTask\<close> works on: the parent task object, the \<^verbatim>\<open>tasks\<close> and
  \<^verbatim>\<open>screenshots\<close> maps of the context, the calls of \<^verbatim>\<open>saveTaskToDb\<close> made so far with the
  task as it was at the call (the function swallows its own errors), and the runner
  invocations made so far: which runner, the temporary id and the temporary task.
\<close>

datatype runner_name = Janus | Workorder

record chain_state =
  c_task :: task
  c_tasks :: "string \<rightharpoonup> task"
  c_screenshots :: "string \<rightharpoonup> screenshot list"
  c_saved :: "(string \<times> task) list"
  c_calls :: "(runner_name \<times> string \<times> task) list"

definition chain_log :: "chain_ctx \<Rightarrow> string \<Rightarrow> chain_state \<Rightarrow> chain_state" where
  "chain_log E msg st =
     st\<lparr>c_task := (c_task st)\<lparr>t_logs := t_logs (c_task st) @ [log_line (clock E) msg]\<rparr>\<rparr>"

definition saveTaskToDb :: "string \<Rightarrow> chain_state \<Rightarrow> chain_state" where
  "saveTaskToDb taskId st = st\<lparr>c_saved := c_saved st @ [(taskId, c_task st)]\<rparr>"

definition subtasks_of :: "task \<Rightarrow> subtask list" where
  "subtasks_of t = (case t_subtasks t of None \<Rightarrow> [] | Some sts \<Rightarrow> sts)"

text \<open>An assignment to properties of \<^verbatim>\<open>task.subtasks[i]\<close>.\<close>

definition set_subtask :: "nat \<Rightarrow> (subtask \<Rightarrow> subtask) \<Rightarrow> chain_state \<Rightarrow> chain_state" where
  "set_subtask i f st =
     st\<lparr>c_task := (c_task st)\<lparr>t_subtasks :=
           map_option (\<lambda>sts. sts[i := f (sts ! i)]) (t_subtasks (c_task st))\<rparr>\<rparr>"

definition resolve_type :: "string nullable \<Rightarrow> string nullable" where
  "resolve_type ty =
     (if ty = Val ''janus'' then Val ''janus_mini_update''
      else if ty = Val ''workorder'' then Val ''janus_workorder_execute''
      else ty)"

definition tempTask_of :: "string \<Rightarrow> subtask \<Rightarrow> task" where
  "tempTask_of ts subtask =
     \<lparr>t_type = resolve_type (s_type subtask), t_name = Undefined, t_psm = s_psm subtask,
      t_env = s_env subtask, t_idl_branch = s_idl_branch subtask,
      t_idl_version = s_idl_version subtask, t_api_group_id = s_api_group_id subtask,
      t_dry_run = Undefined, t_isChained = False, t_subtasks = None,
      t_currentIndex = Undefined, t_status = ''running'', t_stage = Undefined, t_logs = [],
      t_startTime = Val ts, t_endTime = Null, t_error = Null, t_result = Undefined\<rparr>"

definition tempTaskId_of :: "string \<Rightarrow> nat \<Rightarrow> string" where
  "tempTaskId_of taskId i = taskId @ ''_sub'' @ show_nat i"

text \<open>The runner chosen for a temporary task, if any.\<close>

definition runner_for :: "chain_ctx \<Rightarrow> task \<Rightarrow> (runner_name \<times> runner) option" where
  "runner_for E tempTask =
     (if t_type tempTask = Val ''janus_mini_update'' then Some (Janus, janusRunner E)
      else if t_type tempTask = Val ''janus_workorder_execute''
      then Some (Workorder, workorderRunner E)
      else None)"

text \<open>The error exit of the loop, shared by the \<^verbatim>\<open>error\<close> branch and the \<^verbatim>\<open>catch\<close> block.\<close>

definition stop_chain :: "chain_ctx \<Rightarrow> string \<Rightarrow> string \<Rightarrow> chain_state \<Rightarrow> chain_state" where
  "stop_chain E taskId msg st =
     saveTaskToDb taskId
       (st\<lparr>c_task := (c_task st)\<lparr>t_status := ''error'', t_error := Val msg,
              t_endTime := Val (clock E)\<rparr>\<rparr>)"

text \<open>
  The body of the \<^verbatim>\<open>for\<close> loop for index \<open>i\<close>, in the order of the source. First the
  part before the \<^verbatim>\<open>try\<close> block: progress is recorded and saved, the subtask is logged
  and marked as running.
\<close>

definition chain_start :: "chain_ctx \<Rightarrow> string \<Rightarrow> nat \<Rightarrow> chain_state \<Rightarrow> chain_state" where
  "chain_start E taskId i st0 =
     (let n = length (subtasks_of (c_task st0));
          st1 = saveTaskToDb taskId
                  (st0\<lparr>c_task := (c_task st0)\<lparr>t_currentIndex := Val i,
                         t_stage := Val (''Running subtask '' @ show_nat (i + 1) @ ''/''
                                          @ show_nat n)\<rparr>\<rparr>);
          subtask = subtasks_of (c_task st1) ! i;
          st2 = chain_log E ([CHR 0x0A] @ ''=== Subtask '' @ show_nat (i + 1) @ ''/''
                               @ show_nat n @ '': '' @ tpl (s_type subtask) @ '' ==='') st1;
          st3 = chain_log E (''Parameters: '' @ json_params E subtask) st2
      in saveTaskToDb taskId
           (set_subtask i (\<lambda>s. s\<lparr>s_status := ''running'', s_startTime := Val (clock E)\<rparr>) st3))"

text \<open>The temporary task is created and stored, and the runner for its type, if there is
  one, is run on it. Without a runner the temporary task stays as it was created.\<close>

definition chain_run ::
  "chain_ctx \<Rightarrow> string \<Rightarrow> nat \<Rightarrow> chain_state \<Rightarrow> runner_result \<times> chain_state" where
  "chain_run E taskId i st =
     (let tempTaskId = tempTaskId_of taskId i;
          tempTask = tempTask_of (clock E) (subtasks_of (c_task st) ! i);
          st1 = st\<lparr>c_tasks := (c_tasks st)(tempTaskId \<mapsto> tempTask),
                  c_screenshots := (c_screenshots st)(tempTaskId \<mapsto> [])\<rparr>
      in case runner_for E tempTask of
           None \<Rightarrow> (\<lparr>rr_task = tempTask, rr_screenshots = Some [], rr_thrown = None\<rparr>, st1)
         | Some (name, run) \<Rightarrow>
             (let r = run tempTaskId tempTask
              in (r, st1\<lparr>c_tasks := (c_tasks st1)(tempTaskId \<mapsto> rr_task r),
                         c_screenshots := (c_screenshots st1)(tempTaskId := rr_screenshots r),
                         c_calls := c_calls st1 @ [(name, tempTaskId, tempTask)]\<rparr>)))"

text \<open>The \<^verbatim>\<open>catch\<close> block, for an exception with message \<open>m\<close>.\<close>

definition chain_caught :: "chain_ctx \<Rightarrow> string \<Rightarrow> nat \<Rightarrow> string \<Rightarrow> chain_state \<Rightarrow> chain_state" where
  "chain_caught E taskId i m st =
     stop_chain E taskId (''Subtask '' @ show_nat (i + 1) @ '' exception: '' @ m)
       (chain_log E (''Subtask '' @ show_nat (i + 1) @ '' exception: '' @ m)
          (set_subtask i (\<lambda>s. s\<lparr>s_status := ''error'', s_error := Val m,
                                 s_endTime := Val (clock E)\<rparr>) st))"

text \<open>After the runner returned: its results are copied to the subtask, its screenshots to
  the parent's list, and the temporary entries are deleted.\<close>

definition chain_copy_back :: "chain_ctx \<Rightarrow> string \<Rightarrow> nat \<Rightarrow> task \<Rightarrow> chain_state \<Rightarrow> chain_state" where
  "chain_copy_back E taskId i tempTask st =
     (let tempTaskId = tempTaskId_of taskId i;
          st1 = set_subtask i
                  (\<lambda>s. s\<lparr>s_status := t_status tempTask, s_logs := t_logs tempTask,
                         s_endTime := js_or (t_endTime tempTask) (Val (clock E)),
                         s_error := t_error tempTask, s_result := t_result tempTask,
                         s_stage := t_stage tempTask\<rparr>) st;
          subScreenshots = (case c_screenshots st1 tempTaskId of None \<Rightarrow> [] | Some l \<Rightarrow> l);
          mainScreenshots = (case c_screenshots st1 taskId of None \<Rightarrow> [] | Some l \<Rightarrow> l);
          st2 = st1\<lparr>c_screenshots := (c_screenshots st1)(taskId \<mapsto>
                      mainScreenshots
                      @ map (\<lambda>ss. ss\<lparr>label := ''['' @ show_nat (i + 1) @ ''] '' @ label ss\<rparr>)
                          subScreenshots)\<rparr>
      in st2\<lparr>c_tasks := (c_tasks st2)(tempTaskId := None),
              c_screenshots := (c_screenshots st2)(tempTaskId := None)\<rparr>)"

text \<open>The result of the subtask is logged; on \<^verbatim>\<open>error\<close> the chain stops and the function
  returns, which the flag reports.\<close>

definition chain_check :: "chain_ctx \<Rightarrow> string \<Rightarrow> nat \<Rightarrow> chain_state \<Rightarrow> bool \<times> chain_state" where
  "chain_check E taskId i st =
     (let subtask = subtasks_of (c_task st) ! i
      in if s_status subtask = ''completed''
         then (False,
               chain_log E (''Subtask '' @ show_nat (i + 1) @ '' completed: ''
                             @ tpl (js_or (s_result subtask) (Val ''Success''))) st)
         else if s_status subtask = ''error''
         then (True,
               stop_chain E taskId
                 (''Subtask '' @ show_nat (i + 1) @ '' failed: '' @ tpl (s_error subtask))
                 (chain_log E (''Subtask '' @ show_nat (i + 1) @ '' failed: ''
                                @ tpl (s_error subtask)) st))
         else (False, st))"

definition chain_body :: "chain_ctx \<Rightarrow> string \<Rightarrow> nat \<Rightarrow> chain_state \<Rightarrow> bool \<times> chain_state" where
  "chain_body E taskId i st0 =
     (case chain_run E taskId i (chain_start E taskId i st0) of
        (res, st) \<Rightarrow>
          (case rr_thrown res of
             Some m \<Rightarrow> (True, chain_caught E taskId i m st)
           | None \<Rightarrow> chain_check E taskId i (chain_copy_back E taskId i (rr_task res) st)))"

text \<open>The end of an iteration that did not return: the save and the log line before the
  two-second delay.\<close>

definition chain_next :: "chain_ctx \<Rightarrow> string \<Rightarrow> nat \<Rightarrow> chain_state \<Rightarrow> chain_state" where
  "chain_next E taskId i st =
     (let st1 = saveTaskToDb taskId st
      in if i < length (subtasks_of (c_task st1)) - 1
         then chain_log E ''Waiting 2 seconds before next subtask...'' st1
         else st1)"

definition chain_iter :: "chain_ctx \<Rightarrow> string \<Rightarrow> nat \<Rightarrow> chain_state \<Rightarrow> bool \<times> chain_state" where
  "chain_iter E taskId i st =
     (case chain_body E taskId i st of
        (True, st') \<Rightarrow> (True, st')
      | (False, st') \<Rightarrow> (False, chain_next E taskId i st'))"

text \<open>
  The \<^verbatim>\<open>for\<close> loop from index \<open>i\<close>; the flag tells whether the function returned from
  inside the loop. The loop ends because no iteration changes the number of subtasks.
\<close>

function chain_loop :: "chain_ctx \<Rightarrow> string \<Rightarrow> nat \<Rightarrow> chain_state \<Rightarrow> bool \<times> chain_state" where
  "chain_loop E taskId i st =
     (if i < length (subtasks_of (c_task st))
      then (case chain_iter E taskId i st of
              (True, st') \<Rightarrow> (True, st')
            | (False, st') \<Rightarrow> chain_loop E taskId (i + 1) st')
      else (False, st))"
  by pat_completeness auto
termination
proof (relation "measure (\<lambda>(E, taskId, i, st). length (subtasks_of (c_task st)) - i)")
  show "wf (measure (\<lambda>(E, taskId, i, st). length (subtasks_of (c_task st)) - i))" by simp
next
  fix E :: chain_ctx and taskId :: string and i :: nat and st st' :: chain_state and b :: bool
  assume less: "i < length (subtasks_of (c_task st))"
    and iter: "(b, st') = chain_iter E taskId i st"
  let ?len = "\<lambda>s. length (subtasks_of (c_task s))"
  have lg: "?len (chain_log E m s) = ?len s" for m s
    by (simp add: chain_log_def subtasks_of_def)
  have sv: "?len (saveTaskToDb taskId s) = ?len s" for s
    by (simp add: saveTaskToDb_def)
  have su: "?len (set_subtask i f s) = ?len s" for f s
    by (simp add: set_subtask_def subtasks_of_def split: option.splits)
  have sp: "?len (stop_chain E taskId m s) = ?len s" for m s
    by (simp add: stop_chain_def saveTaskToDb_def subtasks_of_def)
  have start: "?len (chain_start E taskId i st) = ?len st"
    by (simp add: chain_start_def Let_def sv su lg) (simp add: subtasks_of_def)
  have run: "?len (snd (chain_run E taskId i s)) = ?len s" for s
    by (simp add: chain_run_def Let_def subtasks_of_def split: option.splits prod.splits)
  have caught: "?len (chain_caught E taskId i m s) = ?len s" for m s
    by (simp add: chain_caught_def sp lg su)
  have copy: "?len (chain_copy_back E taskId i t s) = ?len s" for t s
    using su [of _ s] by (simp add: chain_copy_back_def Let_def subtasks_of_def)
  have check: "?len (snd (chain_check E taskId i s)) = ?len s" for s
    by (simp add: chain_check_def Let_def sp lg)
  have nxt: "?len (chain_next E taskId i s) = ?len s" for s
    by (simp add: chain_next_def Let_def sv lg)
  have body: "?len (snd (chain_body E taskId i st)) = ?len st"
  proof (cases "chain_run E taskId i (chain_start E taskId i st)")
    case (Pair res s)
    then have "?len s = ?len st"
      using run [of "chain_start E taskId i st"] start by simp
    then show ?thesis
      by (simp add: chain_body_def Pair caught copy check split: option.splits)
  qed
  have "?len (snd (chain_iter E taskId i st)) = ?len st"
    using body
    by (cases "chain_body E taskId i st") (simp add: chain_iter_def nxt split: bool.splits)
  then have "?len st' = ?len st" using iter [symmetric] by simp
  then show "((E, taskId, i + 1, st'), E, taskId, i, st)
       \<in> measure (\<lambda>(E, taskId, i, st). length (subtasks_of (c_task st)) - i)"
    using less by simp
qed

declare chain_loop.simps [simp del]

text \<open>
  \<^verbatim>\<open>runChainedTask(taskId, task)\<close>. The first component is the exception that leaves the
  function: reading \<^verbatim>\<open>task.subtasks.length\<close> throws when the task has no subtask
  list. Exceptions of a runner are caught inside the loop.
\<close>

definition runChainedTask :: "chain_ctx \<Rightarrow> string \<Rightarrow> chain_state \<Rightarrow> string option \<times> chain_state" where
  "runChainedTask E taskId st0 =
     (let st1 = chain_log E (''Starting chained task: '' @ tpl (t_name (c_task st0))) st0
      in case t_subtasks (c_task st1) of
           None \<Rightarrow> (Some ''TypeError'', st1)
         | Some sts \<Rightarrow>
             (case chain_loop E taskId 0
                     (chain_log E (''Total subtasks: '' @ show_nat (length sts)) st1) of
                (True, st2) \<Rightarrow> (None, st2)
              | (False, st2) \<Rightarrow>
                  (let n = show_nat (length (subtasks_of (c_task st2)));
                       st3 = st2\<lparr>c_task := (c_task st2)\<lparr>t_status := ''completed'',
                                 t_stage := Val ''All subtasks completed'',
                                 t_endTime := Val (clock E),
                                 t_result := Val (''Completed '' @ n @ '' subtasks'')\<rparr>\<rparr>;
                       st4 = chain_log E ([CHR 0x0A] @ ''=== Chained task completed! ==='') st3;
                       st5 = chain_log E (''Total subtasks: '' @ n) st4
                   in (None, saveTaskToDb taskId st5))))"

text \<open>
  The outcome of the runner for a subtask at index \<open>i\<close> (\<open>None\<close> when the resolved type has
  no runner), the runner invocation this makes, and whether the chain goes on after it:
  it does unless the runner threw or left the status \<^verbatim>\<open>error\<close>.
\<close>

definition sub_outcome :: "chain_ctx \<Rightarrow> string \<Rightarrow> subtask \<Rightarrow> nat \<Rightarrow> runner_result option" where
  "sub_outcome E taskId subtask i =
     (case runner_for E (tempTask_of (clock E) subtask) of
        None \<Rightarrow> None
      | Some (name, run) \<Rightarrow> Some (run (tempTaskId_of taskId i) (tempTask_of (clock E) subtask)))"

definition sub_calls ::
  "chain_ctx \<Rightarrow> string \<Rightarrow> subtask \<Rightarrow> nat \<Rightarrow> (runner_name \<times> string \<times> task) list" where
  "sub_calls E taskId subtask i =
     (case runner_for E (tempTask_of (clock E) subtask) of
        None \<Rightarrow> []
      | Some (name, run) \<Rightarrow> [(name, tempTaskId_of taskId i, tempTask_of (clock E) subtask)])"

definition sub_passes :: "runner_result option \<Rightarrow> bool" where
  "sub_passes ro =
     (case ro of None \<Rightarrow> True
      | Some r \<Rightarrow> rr_thrown r = None \<and> t_status (rr_task r) \<noteq> ''error'')"

text \<open>The runner invocations for the subtasks \<open>sts\<close> at the indices \<open>js\<close>, in order.\<close>

definition calls_for ::
  "chain_ctx \<Rightarrow> string \<Rightarrow> subtask list \<Rightarrow> nat list \<Rightarrow> (runner_name \<times> string \<times> task) list" where
  "calls_for E taskId sts js = concat (map (\<lambda>j. sub_calls E taskId (sts ! j) j) js)"

abbreviation subs :: "chain_state \<Rightarrow> subtask list" where
  "subs st \<equiv> subtasks_of (c_task st)"

text \<open>Subtasks, chains, runners and a context used in the examples below.\<close>

definition plain_subtask :: "string \<Rightarrow> string \<Rightarrow> subtask" where
  "plain_subtask ty psm =
     \<lparr>s_type = Val ty, s_psm = Val psm, s_env = Val ''boe'', s_idl_branch = Val ''main'',
      s_idl_version = Undefined, s_api_group_id = Undefined, s_status = ''pending'',
      s_logs = [], s_startTime = Null, s_endTime = Null, s_error = Null, s_result = Null,
      s_stage = Undefined\<rparr>"

definition chain_of :: "subtask list \<Rightarrow> chain_state" where
  "chain_of sts =
     \<lparr>c_task = \<lparr>t_type = Val ''release'', t_name = Val ''release'', t_psm = Undefined,
         t_env = Undefined, t_idl_branch = Undefined, t_idl_version = Undefined,
         t_api_group_id = Undefined, t_dry_run = Undefined, t_isChained = True,
         t_subtasks = Some sts, t_currentIndex = Val 0, t_status = ''running'',
         t_stage = Undefined, t_logs = [], t_startTime = Val ''2024-01-01T00:00:00.000Z'',
         t_endTime = Null, t_error = Null, t_result = Undefined\<rparr>,
      c_tasks = Map.empty, c_screenshots = Map.empty, c_saved = [], c_calls = []\<rparr>"

definition completing :: "task \<Rightarrow> runner_result" where
  "completing t = \<lparr>rr_task = t\<lparr>t_status := ''completed'', t_result := Val ''done''\<rparr>,
     rr_screenshots = Some [], rr_thrown = None\<rparr>"

definition failing :: "string \<Rightarrow> task \<Rightarrow> runner_result" where
  "failing m t = \<lparr>rr_task = t\<lparr>t_status := ''error'', t_error := Val m\<rparr>,
     rr_screenshots = Some [], rr_thrown = None\<rparr>"

definition second_fails :: runner where
  "second_fails tempTaskId t =
     (if tempTaskId = ''chained_1_sub1'' then failing ''boom'' t else completing t)"

definition ctx_with :: "runner \<Rightarrow> chain_ctx" where
  "ctx_with run = \<lparr>clock = ''2024-01-01T00:00:00.000Z'', json_params = (\<lambda>s. ''{}''),
     janusRunner = run, workorderRunner = run\<rparr>"

definition abc :: "subtask list" where
  "abc = [plain_subtask ''janus'' ''a'', plain_subtask ''janus'' ''b'', plain_subtask ''janus'' ''c'']"

definition axc :: "subtask list" where
  "axc = [plain_subtask ''janus'' ''a'', plain_subtask ''custom'' ''x'', plain_subtask ''workorder'' ''c'']"

section \<open>Task runner (\<^verbatim>\<open>runJanusTask\<close>) and its utilities\<close>

text \<open>
  The screenshots of all tasks: the \<^verbatim>\<open>screenshots\<close> map in memory and the rows of the
  screenshot table, each with task id, index, label and image data. The database
  functions swallow their own errors; the table is modelled as one that takes every row.
\<close>

record shot_store =
  ss_mem :: "string \<rightharpoonup> screenshot list"
  ss_db :: "(string \<times> nat \<times> string \<times> string) list"

text \<open>What a run does to browsers and timers.\<close>

datatype run_effect =
    BodyRun nat
  | BrowserClose nat
  | ForceKill nat
  | Sleep nat
  | PoolRelease
  | ClosePages nat

text \<open>
  The state a runner works on: the task object, the screenshots, the registry
  \<^verbatim>\<open>runningBrowsers\<close> (task id to browser handle and process id), the calls of
  \<^verbatim>\<open>saveTaskToDb\<close> and the effects so far.
\<close>

record run_state =
  r_task :: task
  r_shots :: shot_store
  r_runningBrowsers :: "string \<rightharpoonup> (nat \<times> nat option)"
  r_saved :: "(string \<times> task) list"
  r_effects :: "run_effect list"

text \<open>
  The \<^verbatim>\<open>try\<close> block of \<^verbatim>\<open>runJanusTask\<close> up to the comment \<^verbatim>\<open>// Success\<close> (proxy, browser
  from the pool, page set-up and the page-specific automation) is represented by its
  outcome: the task and the screenshots as it left them, the browser it had obtained
  from the pool, if it got that far, with its process id, and the message of the error
  it raised, if any. It may differ from attempt to attempt.
\<close>

record body_result =
  br_task :: task
  br_shots :: shot_store
  br_browser :: "(nat \<times> nat option) option"
  br_raised :: "string option"

text \<open>What the error handler finds when it looks at the browser's last page: no page,
  an exception, or a page with its URL, the text preview unless reading it threw, and the
  outcome of \<^verbatim>\<open>page.screenshot\<close> (the error message or the image data).\<close>

datatype capture_outcome =
    NoPages
  | PagesFailed string
  | LastPage string "string option" "string + string"

text \<open>
  The dependencies of a run: the clock, the \<^verbatim>\<open>try\<close> block, whether
  \<^verbatim>\<open>browser.close()\<close> and \<^verbatim>\<open>browser.pages()\<close> succeed on a handle, what the error
  handler finds there, and whether the pool's \<^verbatim>\<open>disconnected\<close> listener of a handle writes
  to the log of the running task: it writes through the \<^verbatim>\<open>log\<close> function of the call of
  \<^verbatim>\<open>getBrowser\<close> that launched the browser.
\<close>

record run_ctx =
  rc_clock :: string
  rc_body :: "nat \<Rightarrow> task \<Rightarrow> shot_store \<Rightarrow> body_result"
  rc_close_ok :: "nat \<Rightarrow> bool"
  rc_pages_ok :: "nat \<Rightarrow> bool"
  rc_capture :: "nat \<Rightarrow> capture_outcome"
  rc_pool_logs_here :: "nat \<Rightarrow> bool"

definition MAX_RETRIES :: nat where
  "MAX_RETRIES = 3"

definition task_log :: "run_ctx \<Rightarrow> string \<Rightarrow> run_state \<Rightarrow> run_state" where
  "task_log E msg st =
     st\<lparr>r_task := (r_task st)\<lparr>t_logs := t_logs (r_task st) @ [log_line (rc_clock E) msg]\<rparr>\<rparr>"

definition save_task :: "string \<Rightarrow> run_state \<Rightarrow> run_state" where
  "save_task taskId st = st\<lparr>r_saved := r_saved st @ [(taskId, r_task st)]\<rparr>"

text \<open>\<^verbatim>\<open>screenshots.get(taskId) || []\<close>.\<close>

definition shots_of :: "shot_store \<Rightarrow> string \<Rightarrow> screenshot list" where
  "shots_of ss taskId = (case ss_mem ss taskId of None \<Rightarrow> [] | Some l \<Rightarrow> l)"

text \<open>\<^verbatim>\<open>addScreenshot(page, label)\<close> of \<^verbatim>\<open>createTaskUtils\<close>, on the store alone; \<open>shot\<close>
  is the outcome of \<^verbatim>\<open>page.screenshot\<close>. Nothing is stored when the capture failed.\<close>

definition store_screenshot ::
  "string \<Rightarrow> string \<Rightarrow> string + string \<Rightarrow> string \<Rightarrow> shot_store \<Rightarrow> shot_store" where
  "store_screenshot ts taskId shot lbl ss =
     (case shot of
        Inl e \<Rightarrow> ss
      | Inr dat \<Rightarrow>
          (let taskSS = shots_of ss taskId;
               index = length taskSS
           in \<lparr>ss_mem = (ss_mem ss)(taskId \<mapsto> taskSS @ [\<lparr>label = lbl, data = dat, time = ts\<rparr>]),
               ss_db = ss_db ss @ [(taskId, index, lbl, dat)]\<rparr>))"

definition addScreenshot ::
  "run_ctx \<Rightarrow> string \<Rightarrow> string + string \<Rightarrow> string \<Rightarrow> run_state \<Rightarrow> run_state" where
  "addScreenshot E taskId shot lbl st =
     task_log E (case shot of Inl e \<Rightarrow> ''Screenshot failed: '' @ e
                 | Inr dat \<Rightarrow> ''Screenshot: '' @ lbl)
       (st\<lparr>r_shots := store_screenshot (rc_clock E) taskId shot lbl (r_shots st)\<rparr>)"

text \<open>\<^verbatim>\<open>await browser.close()\<close> on the handle \<open>b\<close>, whether it succeeds or throws. When the
  browser disconnects, the pool's listener writes its line, which reaches the log of the
  running task if \<open>rc_pool_logs_here\<close> says so.\<close>

definition browser_close :: "run_ctx \<Rightarrow> nat \<Rightarrow> run_state \<Rightarrow> run_state" where
  "browser_close E b st =
     (let st1 = st\<lparr>r_effects := r_effects st @ [BrowserClose b]\<rparr>
      in if rc_pool_logs_here E b
         then task_log E ''[BrowserPool] Browser disconnected'' st1
         else st1)"

text \<open>\<^verbatim>\<open>handleTaskError\<close> for an error with message \<open>m\<close> and the runner's \<^verbatim>\<open>browser\<close>
  variable.\<close>

definition handleTaskError ::
  "run_ctx \<Rightarrow> string \<Rightarrow> string \<Rightarrow> nat option \<Rightarrow> run_state \<Rightarrow> run_state" where
  "handleTaskError E taskId m brw st0 =
     (let st1 = task_log E (''ERROR: '' @ m) st0;
          st2 = (case brw of
                   None \<Rightarrow> st1
                 | Some b \<Rightarrow>
                     (case rc_capture E b of
                        NoPages \<Rightarrow> st1
                      | PagesFailed e \<Rightarrow>
                          task_log E (''Could not capture error screenshot: '' @ e) st1
                      | LastPage url preview shot \<Rightarrow>
                          addScreenshot E taskId shot ''error_final''
                            (case preview of
                               None \<Rightarrow> task_log E (''Final URL: '' @ url) st1
                             | Some pv \<Rightarrow>
                                 task_log E (''Page preview: '' @ take 200 pv @ ''...'')
                                   (task_log E (''Final URL: '' @ url) st1))));
          st3 = save_task taskId
                  (st2\<lparr>r_task := (r_task st2)\<lparr>t_status := ''error'', t_error := Val m,
                         t_endTime := Val (rc_clock E)\<rparr>\<rparr>)
      in case brw of
           None \<Rightarrow> st3
         | Some b \<Rightarrow>
             (let st4 = browser_close E b st3;
                  st5 = (if rc_close_ok E b
                         then task_log E ''Browser closed'' st4
                         else st4\<lparr>r_effects := r_effects st4
                                   @ (case r_runningBrowsers st4 taskId of
                                        Some (b', Some p) \<Rightarrow> if p = 0 then [] else [ForceKill p]
                                      | _ \<Rightarrow> [])\<rparr>)
              in st5\<lparr>r_runningBrowsers := (r_runningBrowsers st5)(taskId := None)\<rparr>))"

text \<open>The \<^verbatim>\<open>try\<close> block is entered with retry count \<open>n\<close>: its outcome is taken over, and
  the browser it obtained is entered in the registry.\<close>

definition run_body :: "run_ctx \<Rightarrow> string \<Rightarrow> nat \<Rightarrow> run_state \<Rightarrow> body_result \<times> run_state" where
  "run_body E taskId n st =
     (let res = rc_body E n (r_task st) (r_shots st)
      in (res,
          st\<lparr>r_task := br_task res, r_shots := br_shots res,
             r_runningBrowsers :=
               (case br_browser res of
                  None \<Rightarrow> r_runningBrowsers st
                | Some info \<Rightarrow> (r_runningBrowsers st)(taskId \<mapsto> info)),
             r_effects := r_effects st @ [BodyRun n]\<rparr>))"

text \<open>The rest of the \<^verbatim>\<open>try\<close> block, from \<^verbatim>\<open>// Success\<close>, with \<^verbatim>\<open>cleanupBrowser\<close>:
  the pages are closed and that is logged unless \<^verbatim>\<open>browser.pages()\<close> throws, the browser
  is released to the pool, which logs it through the task's \<^verbatim>\<open>log\<close>, and the task leaves
  the registry.\<close>

definition on_success :: "run_ctx \<Rightarrow> string \<Rightarrow> nat option \<Rightarrow> run_state \<Rightarrow> run_state" where
  "on_success E taskId brw st0 =
     (let st1 = save_task taskId
                  (task_log E ''Task completed!''
                     (st0\<lparr>r_task := (r_task st0)\<lparr>t_status := ''completed'',
                            t_result := Val (''IDL branch updated to ''
                                             @ tpl (t_idl_branch (r_task st0))),
                            t_endTime := Val (rc_clock E)\<rparr>\<rparr>))
      in case brw of
           None \<Rightarrow> st1
         | Some b \<Rightarrow>
             (let st2 = (if rc_pages_ok E b
                         then task_log E ''Pages closed''
                                (st1\<lparr>r_effects := r_effects st1 @ [ClosePages b]\<rparr>)
                         else st1);
                  st3 = task_log E ''[BrowserPool] Browser released back to pool''
                          (st2\<lparr>r_effects := r_effects st2 @ [PoolRelease]\<rparr>)
              in st3\<lparr>r_runningBrowsers := (r_runningBrowsers st3)(taskId := None)\<rparr>))"

text \<open>\<^verbatim>\<open>if (browser) { try { await browser.close(); } catch (e) {} runningBrowsers.delete(taskId); }\<close>\<close>

definition close_quietly :: "run_ctx \<Rightarrow> string \<Rightarrow> nat option \<Rightarrow> run_state \<Rightarrow> run_state" where
  "close_quietly E taskId brw st =
     (case brw of
        None \<Rightarrow> st
      | Some b \<Rightarrow>
          (browser_close E b st)
            \<lparr>r_runningBrowsers := (r_runningBrowsers (browser_close E b st))(taskId := None)\<rparr>)"

text \<open>The first branch of the \<^verbatim>\<open>catch\<close> block: a cookie or SSO error, not retried.\<close>

definition is_cookie_error :: "string \<Rightarrow> bool" where
  "is_cookie_error m = (includes_str m ''refresh cookies'' \<or> includes_str m ''Not logged in'')"

definition on_cookie_error :: "run_ctx \<Rightarrow> string \<Rightarrow> string \<Rightarrow> nat option \<Rightarrow> run_state \<Rightarrow> run_state" where
  "on_cookie_error E taskId m brw st0 =
     close_quietly E taskId brw
       (save_task taskId
          ((task_log E (''Cookie/SSO error - no retry: '' @ m) st0)
             \<lparr>r_task := (r_task (task_log E (''Cookie/SSO error - no retry: '' @ m) st0))
                 \<lparr>t_status := ''error'', t_error := Val m, t_endTime := Val (rc_clock E)\<rparr>\<rparr>))"

text \<open>The second branch, up to the recursive call: the log line, the browser closed, the
  two seconds of delay.\<close>

definition is_context_destroyed :: "string \<Rightarrow> bool" where
  "is_context_destroyed m = includes_str m ''Execution context was destroyed''"

definition before_retry :: "run_ctx \<Rightarrow> string \<Rightarrow> nat \<Rightarrow> nat option \<Rightarrow> run_state \<Rightarrow> run_state" where
  "before_retry E taskId retryCount brw st0 =
     (let st1 = close_quietly E taskId brw
                  (task_log E (''Navigation context destroyed, retrying (attempt ''
                                @ show_nat (retryCount + 1) @ ''/'' @ show_nat MAX_RETRIES
                                @ '')...'') st0)
      in st1\<lparr>r_effects := r_effects st1 @ [Sleep 2000]\<rparr>)"

text \<open>\<^verbatim>\<open>runJanusTask(taskId, task, retryCount)\<close>.\<close>

function runJanusTask :: "run_ctx \<Rightarrow> string \<Rightarrow> nat \<Rightarrow> run_state \<Rightarrow> run_state" where
  "runJanusTask E taskId retryCount st0 =
     (case run_body E taskId retryCount st0 of
        (res, st) \<Rightarrow>
          (case br_raised res of
             None \<Rightarrow> on_success E taskId (map_option fst (br_browser res)) st
           | Some m \<Rightarrow>
               if is_cookie_error m
               then on_cookie_error E taskId m (map_option fst (br_browser res)) st
               else if is_context_destroyed m \<and> retryCount < MAX_RETRIES
               then runJanusTask E taskId (retryCount + 1)
                      (before_retry E taskId retryCount (map_option fst (br_browser res)) st)
               else handleTaskError E taskId m (map_option fst (br_browser res)) st))"
  by pat_completeness auto
termination
  by (relation "measure (\<lambda>(E, taskId, retryCount, st). MAX_RETRIES - retryCount)") auto

declare runJanusTask.simps [simp del]

text \<open>The retry counts with which the \<^verbatim>\<open>try\<close> block was entered, the browsers closed and
  the delays, in a list of effects.\<close>

definition attempts :: "run_effect list \<Rightarrow> nat list" where
  "attempts es = concat (map (\<lambda>e. case e of BodyRun n \<Rightarrow> [n] | _ \<Rightarrow> []) es)"

definition closes :: "run_effect list \<Rightarrow> nat list" where
  "closes es = concat (map (\<lambda>e. case e of BrowserClose b \<Rightarrow> [b] | _ \<Rightarrow> []) es)"

definition sleeps :: "run_effect list \<Rightarrow> nat list" where
  "sleeps es = concat (map (\<lambda>e. case e of Sleep d \<Rightarrow> [d] | _ \<Rightarrow> []) es)"

text \<open>A runner context whose every attempt obtains a browser and raises the same error,
  a task and error messages, used in the examples below.\<close>

definition always_raises :: "string \<Rightarrow> run_ctx" where
  "always_raises m =
     \<lparr>rc_clock = ''2024-01-01T00:00:00.000Z'',
      rc_body = (\<lambda>n t ss. \<lparr>br_task = t, br_shots = ss, br_browser = Some (7 + n, Some 4242),
                              br_raised = Some m\<rparr>),
      rc_close_ok = (\<lambda>b. True), rc_pages_ok = (\<lambda>b. True), rc_capture = (\<lambda>b. NoPages),
      rc_pool_logs_here = (\<lambda>b. True)\<rparr>"

definition janus_task :: task where
  "janus_task =
     \<lparr>t_type = Val ''janus_mini_update'', t_name = Undefined, t_psm = Val ''a.b.c'',
      t_env = Val ''boe'', t_idl_branch = Val ''main'', t_idl_version = Null,
      t_api_group_id = Null, t_dry_run = Val True, t_isChained = False, t_subtasks = None,
      t_currentIndex = Undefined, t_status = ''running'', t_stage = Undefined, t_logs = [],
      t_startTime = Val ''2024-01-01T00:00:00.000Z'', t_endTime = Null, t_error = Null,
      t_result = Undefined\<rparr>"

definition fresh_run :: run_state where
  "fresh_run = \<lparr>r_task = janus_task, r_shots = \<lparr>ss_mem = Map.empty, ss_db = []\<rparr>,
     r_runningBrowsers = Map.empty, r_saved = [], r_effects = []\<rparr>"

definition navigation_error :: string where
  "navigation_error = ''Execution context was destroyed, most likely because of a navigation.''"

definition login_error :: string where
  "login_error = ''Not logged in (Execution context was destroyed)''"

section \<open>Restarting a task (\<^verbatim>\<open>POST /api/tasks/:id/restart\<close>)\<close>

text \<open>
  The request body: a field that is \<^verbatim>\<open>undefined\<close> is left alone, any other value,
  \<^verbatim>\<open>null\<close> included, is assigned. \<^verbatim>\<open>subtasks\<close> is present when the body has an array
  there; of its elements the handler reads the type and the five parameters.
\<close>

record updates =
  u_psm :: "string nullable"
  u_env :: "string nullable"
  u_idl_branch :: "string nullable"
  u_idl_version :: "string nullable"
  u_dry_run :: "bool nullable"
  u_api_group_id :: "string nullable"
  u_name :: "string nullable"
  u_subtasks :: "subtask list option"

text \<open>What the handler works on: the \<^verbatim>\<open>tasks\<close> map, the screenshots and the calls of
  \<^verbatim>\<open>saveTaskToDb\<close>.\<close>

record server =
  sv_tasks :: "string \<rightharpoonup> task"
  sv_shots :: shot_store
  sv_saved :: "(string \<times> task) list"

text \<open>The answer of the database to the query for the task, asked only when the task is
  not in memory: no connection pool, no row, the row converted by \<^verbatim>\<open>dbRowToTask\<close>, or
  an exception.\<close>

datatype db_answer = NoPool | NoRow | Row task | QueryFailed string

datatype restart_response = Restarted string | NotFound | AlreadyRunning | ServerError string

text \<open>The runner the handler starts after it has answered, with its arguments.\<close>

datatype started =
    StartChained string task
  | StartWorkorder string task
  | StartJanus string task

definition assign :: "'a nullable \<Rightarrow> 'a nullable \<Rightarrow> 'a nullable" where
  "assign new old = (if new = Undefined then old else new)"

definition apply_updates :: "updates \<Rightarrow> task \<Rightarrow> task" where
  "apply_updates u t =
     t\<lparr>t_psm := assign (u_psm u) (t_psm t), t_env := assign (u_env u) (t_env t),
       t_idl_branch := assign (u_idl_branch u) (t_idl_branch t),
       t_idl_version := assign (u_idl_version u) (t_idl_version t),
       t_dry_run := assign (u_dry_run u) (t_dry_run t),
       t_api_group_id := assign (u_api_group_id u) (t_api_group_id t),
       t_name := assign (u_name u) (t_name t)\<rparr>"

text \<open>The subtask object built from an element of \<^verbatim>\<open>updates.subtasks\<close>.\<close>

definition new_subtask :: "subtask \<Rightarrow> subtask" where
  "new_subtask st =
     \<lparr>s_type = resolve_type (s_type st), s_psm = s_psm st, s_env = s_env st,
      s_idl_branch = s_idl_branch st, s_idl_version = s_idl_version st,
      s_api_group_id = s_api_group_id st, s_status = ''pending'', s_logs = [],
      s_startTime = Null, s_endTime = Null, s_error = Null, s_result = Null,
      s_stage = Undefined\<rparr>"

definition replace_subtasks :: "updates \<Rightarrow> task \<Rightarrow> task" where
  "replace_subtasks u t =
     (case u_subtasks u of
        None \<Rightarrow> t
      | Some sts \<Rightarrow> t\<lparr>t_subtasks := Some (map new_subtask sts)\<rparr>)"

text \<open>\<^verbatim>\<open>// Reset task state\<close>.\<close>

definition reset_subtask :: "subtask \<Rightarrow> subtask" where
  "reset_subtask subtask =
     subtask\<lparr>s_status := ''pending'', s_logs := [], s_startTime := Null, s_endTime := Null,
       s_error := Null, s_result := Null\<rparr>"

definition reset_task :: "string \<Rightarrow> task \<Rightarrow> task" where
  "reset_task ts t0 =
     (let t = t0\<lparr>t_status := ''running'', t_error := Null, t_startTime := Val ts,
                t_endTime := Null, t_logs := [log_line ts ''Task restarted'']\<rparr>
      in case t_subtasks t of
           None \<Rightarrow> t
         | Some sts \<Rightarrow> t\<lparr>t_subtasks := Some (map reset_subtask sts), t_currentIndex := Val 0\<rparr>)"

text \<open>\<^verbatim>\<open>deleteScreenshotsFromDb(taskId)\<close>.\<close>

definition delete_rows :: "string \<Rightarrow> shot_store \<Rightarrow> shot_store" where
  "delete_rows taskId ss = ss\<lparr>ss_db := filter (\<lambda>(t, i, l, d). t \<noteq> taskId) (ss_db ss)\<rparr>"

definition start_runner :: "string \<Rightarrow> task \<Rightarrow> started" where
  "start_runner taskId t =
     (if t_isChained t \<or> t_subtasks t \<noteq> None then StartChained taskId t
      else if t_type t = Val ''janus_workorder_execute'' then StartWorkorder taskId t
      else StartJanus taskId t)"

text \<open>The handler, for the task id of the URL, the request body, the clock and the
  database's answer.\<close>

definition restart ::
  "string \<Rightarrow> string \<Rightarrow> updates \<Rightarrow> db_answer \<Rightarrow> server
     \<Rightarrow> restart_response \<times> server \<times> started option" where
  "restart ts taskId u db sv =
     (case (case sv_tasks sv taskId of
              Some t \<Rightarrow> Inr (Some t)
            | None \<Rightarrow>
                (case db of
                   NoPool \<Rightarrow> Inr None
                 | NoRow \<Rightarrow> Inr None
                 | Row t \<Rightarrow> Inr (Some t)
                 | QueryFailed m \<Rightarrow> Inl m)) of
        Inl m \<Rightarrow> (ServerError m, sv, None)
      | Inr None \<Rightarrow> (NotFound, sv, None)
      | Inr (Some t0) \<Rightarrow>
          if t_status t0 = ''running'' then (AlreadyRunning, sv, None)
          else
            (let t = reset_task ts (replace_subtasks u (apply_updates u t0))
             in (Restarted taskId,
                 sv\<lparr>sv_tasks := (sv_tasks sv)(taskId \<mapsto> t),
                    sv_shots := delete_rows taskId
                                  ((sv_shots sv)\<lparr>ss_mem := (ss_mem (sv_shots sv))(taskId \<mapsto> [])\<rparr>),
                    sv_saved := sv_saved sv @ [(taskId, t)]\<rparr>,
                 Some (start_runner taskId t))))"

text \<open>The task the handler finds, when it finds one.\<close>

definition find_task :: "string \<Rightarrow> db_answer \<Rightarrow> server \<Rightarrow> task option" where
  "find_task taskId db sv =
     (case sv_tasks sv taskId of
        Some t \<Rightarrow> Some t
      | None \<Rightarrow> (case db of Row t \<Rightarrow> Some t | _ \<Rightarrow> None))"

text \<open>The status of the task a runner is started with.\<close>

definition started_status :: "started \<Rightarrow> string" where
  "started_status r =
     (case r of StartChained taskId t \<Rightarrow> t_status t
      | StartWorkorder taskId t \<Rightarrow> t_status t
      | StartJanus taskId t \<Rightarrow> t_status t)"

text \<open>The task is reset for a new run: running, started now, without error and end time,
  with the one log line of the restart.\<close>

definition restarted_parent :: "string \<Rightarrow> task \<Rightarrow> bool" where
  "restarted_parent ts t =
     (t_status t = ''running'' \<and> t_error t = Null \<and> t_endTime t = Null \<and>
      t_startTime t = Val ts \<and> t_logs t = [log_line ts ''Task restarted''] \<and>
      t_currentIndex t = Val 0)"

definition cleared_subtask :: "subtask \<Rightarrow> bool" where
  "cleared_subtask s =
     (s_status s = ''pending'' \<and> s_logs s = [] \<and> s_error s = Null \<and> s_result s = Null \<and>
      s_startTime s = Null \<and> s_endTime s = Null)"




text \<open>A request without updates, a completed chain, servers that hold it and capture
  outcomes, used in the examples below.\<close>

definition no_updates :: updates where
  "no_updates = \<lparr>u_psm = Undefined, u_env = Undefined, u_idl_branch = Undefined,
     u_idl_version = Undefined, u_dry_run = Undefined, u_api_group_id = Undefined,
     u_name = Undefined, u_subtasks = None\<rparr>"

definition done_subtask :: "string \<Rightarrow> subtask" where
  "done_subtask psm =
     \<lparr>s_type = Val ''janus_mini_update'', s_psm = Val psm, s_env = Val ''boe'',
      s_idl_branch = Val ''main'', s_idl_version = Undefined, s_api_group_id = Undefined,
      s_status = ''completed'', s_logs = [''[2024-01-01T00:00:01.000Z] Task completed!''],
      s_startTime = Val ''2024-01-01T00:00:00.000Z'', s_endTime = Val ''2024-01-01T00:00:01.000Z'',
      s_error = Null, s_result = Val ''IDL branch updated to main'', s_stage = Val ''Done''\<rparr>"

definition done_chain :: task where
  "done_chain =
     \<lparr>t_type = Val ''release'', t_name = Val ''release'', t_psm = Undefined, t_env = Undefined,
      t_idl_branch = Undefined, t_idl_version = Undefined, t_api_group_id = Undefined,
      t_dry_run = Undefined, t_isChained = True,
      t_subtasks = Some [done_subtask ''a'', done_subtask ''b''], t_currentIndex = Val 1,
      t_status = ''completed'', t_stage = Val ''All subtasks completed'',
      t_logs = [''[2024-01-01T00:00:02.000Z] === Chained task completed! ===''],
      t_startTime = Val ''2024-01-01T00:00:00.000Z'', t_endTime = Val ''2024-01-01T00:00:02.000Z'',
      t_error = Null, t_result = Val ''Completed 2 subtasks''\<rparr>"

definition empty_store :: shot_store where
  "empty_store = \<lparr>ss_mem = Map.empty, ss_db = []\<rparr>"

definition done_server :: "shot_store \<Rightarrow> server" where
  "done_server ss = \<lparr>sv_tasks = [''chained_1'' \<mapsto> done_chain], sv_shots = ss, sv_saved = []\<rparr>"




section \<open>Properties of the condition poller\<close>

lemma is_fatal_Target_closed: "is_fatal ''Target closed''"
  by (simp add: is_fatal_def fatalErrors_def)

text \<open>A positive timeout and a positive interval give a bound of at least one attempt.\<close>

lemma ceil_div_positive:
  assumes "0 < timeout" and "0 < interval"
  shows "js_lt 0 (ceil_div timeout interval)"
proof -
  have "(- timeout) div interval < 0"
    using assms by (simp add: div_neg_pos_less0)
  then show ?thesis using assms by (simp add: ceil_div_def)
qed

text \<open>Whenever the loop is entered, a fatal error of the first check ends the poll.\<close>

lemma poll_fatal_first:
  assumes "checkFn 0 = Throws m" and "is_fatal m"
    and "js_lt 0 (ceil_div timeout interval)"
  shows "pollForCondition checkFn timeout interval
           = Some (fatal_result m, 1, [LogError 0 (take 50 m), LogFatal])"
  unfolding pollForCondition_def
  by (subst poll_loop.simps) (simp add: assms)

text \<open>With \<^verbatim>\<open>timeout = 0\<close> there is nothing to poll: the bound \<^verbatim>\<open>maxAttempts\<close> is 0, the
  check function is not invoked and the poll reports a timeout. No caller passes it.\<close>

lemma poll_zero_timeout:
  "pollForCondition (\<lambda>k. Throws ''Target closed'' :: unit check_outcome) 0 1000
     = Some (timed_out_result, 0, [LogTimeout])"
  unfolding pollForCondition_def
  by (subst poll_loop.simps) (simp add: ceil_div_def)

text \<open>
  Claim C5. Given a check function every invocation of which throws an error whose
  message is classified as fatal, \<^verbatim>\<open>pollForCondition\<close>, for a timeout and an interval
  that are positive numbers of milliseconds, returns an object with \<^verbatim>\<open>ready = false\<close>
  and \<^verbatim>\<open>fatalError = true\<close>, and neither \<^verbatim>\<open>tooManyErrors\<close> nor \<^verbatim>\<open>timedOut\<close>, after
  exactly one invocation of the check function, not after five attempts.
\<close>

theorem poll_fatal_short_circuit:
  assumes fatal: "\<forall>k. \<exists>m. checkFn k = Throws m \<and> is_fatal m"
    and timeout: "0 < timeout" and interval: "0 < interval"
  shows "\<exists>r lg. pollForCondition checkFn timeout interval = Some (r, 1, lg)
           \<and> ready r = False \<and> fatalError r = True
           \<and> tooManyErrors r = False \<and> timedOut r = False"
proof -
  from fatal obtain m where m: "checkFn 0 = Throws m" "is_fatal m" by blast
  have "pollForCondition checkFn timeout interval
          = Some (fatal_result m, 1, [LogError 0 (take 50 m), LogFatal])"
    using m ceil_div_positive [OF timeout interval] by (rule poll_fatal_first)
  then show ?thesis by (simp add: fatal_result_def)
qed

text \<open>The theorem at the default timeout of 30 s and interval of 1 s.\<close>

theorem poll_fatal_short_circuit_witness:
  "(0::int) < 30000 \<and> (0::int) < 1000 \<and>
   (\<exists>r lg. pollForCondition (\<lambda>k. Throws ''Target closed'' :: unit check_outcome) 30000 1000
             = Some (r, 1, lg)
           \<and> ready r = False \<and> fatalError r = True
           \<and> tooManyErrors r = False \<and> timedOut r = False)"
proof -
  have a: "\<forall>k. \<exists>m. (\<lambda>k. Throws ''Target closed'' :: unit check_outcome) k = Throws m
             \<and> is_fatal m"
    by (simp add: is_fatal_Target_closed)
  have b: "(0::int) < 30000" "(0::int) < 1000" by simp_all
  show ?thesis using poll_fatal_short_circuit [OF a b] b by blast
qed

section \<open>Properties of the selective proxy\<close>


























section \<open>Properties of the browser pool\<close>













lemma release_pool:
  "inUse (pool (fst (release env w))) = False"
  "browser (pool (fst (release env w))) = browser (pool w)"
  "pid (pool (fst (release env w))) = pid (pool w)"
  "createdAt (pool (fst (release env w))) = createdAt (pool w)"
  "maxAge (pool (fst (release env w))) = maxAge (pool w)"
  by (simp_all add: release_def Let_def setTimeout_def clearTimeout_def split: option.splits)



lemma getBrowser_cached:
  assumes "browser (pool w) = Some b" "age_at (now env) w \<le> maxAge (pool w)" "probe_ok env b"
  shows "fst (getBrowser C env args w) = Inr \<lparr>res_browser = b, res_pid = pid (pool w), cached = True\<rparr>"
    and "inUse (pool (fst (snd (getBrowser C env args w))))"
  using assms
  by (auto simp: getBrowser_def Let_def age_at_def clearTimeout_def split: option.splits)



text \<open>
  Claim C6. When the pool holds a browser whose age exceeds \<^verbatim>\<open>maxAge\<close>, \<^verbatim>\<open>getBrowser\<close>
  closes it and calls \<^verbatim>\<open>puppeteer.launch\<close> without probing the old browser (the outcome
  does not depend on the probe). It never returns the cached entry: either the launch
  fails and the exception reaches the caller, or the call returns the handle and process
  id of the newly launched process with \<^verbatim>\<open>cached = false\<close>, and these are then the
  pool's entry, created at the time of the call.
\<close>

theorem getBrowser_max_age:
  assumes "browser (pool w) = Some b" and "age_at (now env) w > maxAge (pool w)"
  shows "fst (getBrowser C env args w)
           = (case launch env (all_args C args) of
                Launched h p \<Rightarrow> Inr \<lparr>res_browser = h, res_pid = p, cached = False\<rparr>
              | LaunchFailed m \<Rightarrow> Inl m) \<and>
         CloseBrowser b \<in> set (snd (snd (getBrowser C env args w))) \<and>
         LaunchBrowser (all_args C args) \<in> set (snd (snd (getBrowser C env args w))) \<and>
         (\<forall>res. fst (getBrowser C env args w) = Inr res \<longrightarrow>
            cached res = False \<and>
            browser (pool (fst (snd (getBrowser C env args w)))) = Some (res_browser res) \<and>
            pid (pool (fst (snd (getBrowser C env args w)))) = res_pid res \<and>
            createdAt (pool (fst (snd (getBrowser C env args w)))) = Some (now env)) \<and>
         getBrowser C (env\<lparr>probe_ok := f\<rparr>) args w = getBrowser C env args w"
  using assms
  by (auto simp: getBrowser_def launch_new_def Let_def age_at_def all_args_def clearTimeout_def
      split: option.splits launch_result.splits)

text \<open>
  Claim C1 (as amended). The pool has a single \<^verbatim>\<open>inUse\<close> flag, which every successful
  \<^verbatim>\<open>getBrowser\<close> sets and \<^verbatim>\<open>release()\<close> clears, and \<^verbatim>\<open>getBrowser\<close> does not test it:
  after a call of \<^verbatim>\<open>getBrowser\<close> was granted an entry, a second call, with no
  \<^verbatim>\<open>release()\<close> in between, is granted the same entry (same handle, same process id,
  \<^verbatim>\<open>cached = true\<close>) whenever the entry is not older than \<^verbatim>\<open>maxAge\<close> and answers the
  liveness probe. Exclusive use is left to the callers.
\<close>

theorem getBrowser_regrant:
  assumes "getBrowser C envA argsA w = (Inr r, w', acts)"
    and "age_at (now envB) w' \<le> maxAge (pool w')"
    and "probe_ok envB (res_browser r)"
  shows "inUse (pool w') \<and>
         fst (getBrowser C envB argsB w')
           = Inr \<lparr>res_browser = res_browser r, res_pid = res_pid r, cached = True\<rparr> \<and>
         inUse (pool (fst (snd (getBrowser C envB argsB w')))) \<and>
         \<not> inUse (pool (fst (release envC w')))"
proof -
  from assms(1) have w': "browser (pool w') = Some (res_browser r)" "pid (pool w') = res_pid r"
    "inUse (pool w')"
    by (auto simp: getBrowser_def launch_new_def Let_def clearTimeout_def
      split: option.splits launch_result.splits if_splits)
  show ?thesis
    using getBrowser_cached [OF w'(1) assms(2) assms(3), of C argsB] w'
    by (simp add: release_pool)
qed


lemmas pool_defs = getBrowser_def launch_new_def release_def setTimeout_def clearTimeout_def
  fire_timer_def idle_callback_def env_at_def initial_world_def createBrowserPool_def
  world_with_def run_ops_def age_at_def hasInstance_def Let_def

lemma first_grant:
  "getBrowser [] (env_at 0 1 4242) [] (world_with 300000 600000)
     = (Inr \<lparr>res_browser = 1, res_pid = Some 4242, cached = False\<rparr>, launched_world,
        [LogLaunching, LaunchBrowser [], LogLaunched (Some 4242)])"
  by (simp add: pool_defs launched_world_def)


text \<open>The theorem for a first call at time 0 and a second call one second later.\<close>

theorem getBrowser_regrant_witness:
  "getBrowser [] (env_at 0 1 4242) [] (world_with 300000 600000)
     = (Inr \<lparr>res_browser = 1, res_pid = Some 4242, cached = False\<rparr>, launched_world,
        [LogLaunching, LaunchBrowser [], LogLaunched (Some 4242)]) \<and>
   age_at (now (env_at 1000 2 4343)) launched_world \<le> maxAge (pool launched_world) \<and>
   probe_ok (env_at 1000 2 4343) 1 \<and>
   inUse (pool launched_world) \<and>
   fst (getBrowser [] (env_at 1000 2 4343) [] launched_world)
     = Inr \<lparr>res_browser = 1, res_pid = Some 4242, cached = True\<rparr> \<and>
   inUse (pool (fst (snd (getBrowser [] (env_at 1000 2 4343) [] launched_world)))) \<and>
   \<not> inUse (pool (fst (release (env_at 2000 1 4242) launched_world)))"
proof -
  have a: "age_at (now (env_at 1000 2 4343)) launched_world \<le> maxAge (pool launched_world)"
    by (simp add: age_at_def env_at_def launched_world_def)
  have b: "probe_ok (env_at 1000 2 4343) (res_browser \<lparr>res_browser = 1, res_pid = Some 4242, cached = False\<rparr>)"
    by (simp add: env_at_def)
  show ?thesis
    using getBrowser_regrant [OF first_grant a b, where argsB = "[]" and envC = "env_at 2000 1 4242"]
      a b first_grant
    by simp
qed

text \<open>Two calls of \<^verbatim>\<open>getBrowser\<close> on a new pool with no \<^verbatim>\<open>release()\<close> between them: both
  are granted handle 1, and \<^verbatim>\<open>inUse\<close> is true from the first call on.\<close>

theorem pool_exclusivity_counterexample:
  "fst (getBrowser [] (env_at 0 1 4242) [] initial_world)
     = Inr \<lparr>res_browser = 1, res_pid = Some 4242, cached = False\<rparr> \<and>
   inUse (pool (fst (snd (getBrowser [] (env_at 0 1 4242) [] initial_world)))) \<and>
   fst (getBrowser [] (env_at 1000 2 4343) []
          (fst (snd (getBrowser [] (env_at 0 1 4242) [] initial_world))))
     = Inr \<lparr>res_browser = 1, res_pid = Some 4242, cached = True\<rparr>"
  by (simp add: pool_defs)

text \<open>The theorem for a browser launched at time 0 and a call just after ten minutes.\<close>

theorem getBrowser_max_age_witness:
  "browser (pool launched_world) = Some 1 \<and>
   age_at (now (env_at 600001 2 4343)) launched_world > maxAge (pool launched_world) \<and>
   fst (getBrowser [] (env_at 600001 2 4343) [] launched_world)
     = Inr \<lparr>res_browser = 2, res_pid = Some 4343, cached = False\<rparr> \<and>
   CloseBrowser 1 \<in> set (snd (snd (getBrowser [] (env_at 600001 2 4343) [] launched_world))) \<and>
   browser (pool (fst (snd (getBrowser [] (env_at 600001 2 4343) [] launched_world)))) = Some 2"
proof -
  have a: "browser (pool launched_world) = Some 1" by (simp add: launched_world_def)
  have b: "age_at (now (env_at 600001 2 4343)) launched_world > maxAge (pool launched_world)"
    by (simp add: age_at_def env_at_def launched_world_def)
  have c: "launch (env_at 600001 2 4343) (all_args [] []) = Launched 2 (Some 4343)"
    by (simp add: env_at_def)
  show ?thesis
    using getBrowser_max_age [OF a b, of "[]" "[]"] a b
    by (simp add: c)
qed



section \<open>Properties of the chained task runner\<close>


lemma c_task_save [simp]: "c_task (saveTaskToDb tid st) = c_task st"
  and c_calls_save [simp]: "c_calls (saveTaskToDb tid st) = c_calls st"
  by (simp_all add: saveTaskToDb_def)

lemma subs_chain_log [simp]: "subs (chain_log E m st) = subs st"
  and c_calls_chain_log [simp]: "c_calls (chain_log E m st) = c_calls st"
  and status_chain_log [simp]: "t_status (c_task (chain_log E m st)) = t_status (c_task st)"
  and error_chain_log [simp]: "t_error (c_task (chain_log E m st)) = t_error (c_task st)"
  by (simp_all add: chain_log_def subtasks_of_def)

lemma subs_set_subtask [simp]:
  "subs (set_subtask i f st) = (subs st)[i := f (subs st ! i)]"
  and c_calls_set_subtask [simp]: "c_calls (set_subtask i f st) = c_calls st"
  and status_set_subtask [simp]: "t_status (c_task (set_subtask i f st)) = t_status (c_task st)"
  and error_set_subtask [simp]: "t_error (c_task (set_subtask i f st)) = t_error (c_task st)"
  by (simp_all add: set_subtask_def subtasks_of_def split: option.splits)

lemma subs_stop_chain [simp]: "subs (stop_chain E tid m st) = subs st"
  and c_calls_stop_chain [simp]: "c_calls (stop_chain E tid m st) = c_calls st"
  and status_stop_chain [simp]: "t_status (c_task (stop_chain E tid m st)) = ''error''"
  and error_stop_chain [simp]: "t_error (c_task (stop_chain E tid m st)) = Val m"
  by (simp_all add: stop_chain_def subtasks_of_def)

lemma tempTask_of_running [simp]:
  "tempTask_of ts (s\<lparr>s_status := a, s_startTime := b\<rparr>) = tempTask_of ts s"
  by (simp add: tempTask_of_def)

lemma subs_progress [simp]:
  "subtasks_of (t\<lparr>t_currentIndex := a, t_stage := b\<rparr>) = subtasks_of t"
  by (simp add: subtasks_of_def)

lemma chain_start_props:
  "subs (chain_start E tid i st)
     = (subs st)[i := (subs st ! i)\<lparr>s_status := ''running'', s_startTime := Val (clock E)\<rparr>]"
  "c_calls (chain_start E tid i st) = c_calls st"
  by (simp_all add: chain_start_def Let_def)

lemma chain_run_props:
  "subs (snd (chain_run E tid i st)) = subs st"
  "c_calls (snd (chain_run E tid i st)) = c_calls st @ sub_calls E tid (subs st ! i) i"
  "fst (chain_run E tid i st)
     = (case sub_outcome E tid (subs st ! i) i of
          None \<Rightarrow> \<lparr>rr_task = tempTask_of (clock E) (subs st ! i), rr_screenshots = Some [],
                    rr_thrown = None\<rparr>
        | Some r \<Rightarrow> r)"
  by (simp_all add: chain_run_def Let_def sub_calls_def sub_outcome_def split: option.splits)

lemma chain_caught_props:
  "subs (chain_caught E tid i m st)
     = (subs st)[i := (subs st ! i)\<lparr>s_status := ''error'', s_error := Val m,
                                    s_endTime := Val (clock E)\<rparr>]"
  "c_calls (chain_caught E tid i m st) = c_calls st"
  "t_status (c_task (chain_caught E tid i m st)) = ''error''"
  "t_error (c_task (chain_caught E tid i m st))
     = Val (''Subtask '' @ show_nat (i + 1) @ '' exception: '' @ m)"
  by (simp_all add: chain_caught_def)

lemma chain_copy_back_props:
  "subs (chain_copy_back E tid i tt st)
     = (subs st)[i := (subs st ! i)\<lparr>s_status := t_status tt, s_logs := t_logs tt,
                         s_endTime := js_or (t_endTime tt) (Val (clock E)),
                         s_error := t_error tt, s_result := t_result tt,
                         s_stage := t_stage tt\<rparr>]"
  "c_calls (chain_copy_back E tid i tt st) = c_calls st"
  "t_status (c_task (chain_copy_back E tid i tt st)) = t_status (c_task st)"
  by (simp_all add: chain_copy_back_def Let_def)

lemma chain_check_props:
  "subs (snd (chain_check E tid i st)) = subs st"
  "c_calls (snd (chain_check E tid i st)) = c_calls st"
  "fst (chain_check E tid i st) = (s_status (subs st ! i) = ''error'')"
  "s_status (subs st ! i) = ''error'' \<Longrightarrow>
     t_status (c_task (snd (chain_check E tid i st))) = ''error'' \<and>
     t_error (c_task (snd (chain_check E tid i st)))
       = Val (''Subtask '' @ show_nat (i + 1) @ '' failed: '' @ tpl (s_error (subs st ! i)))"
  by (simp_all add: chain_check_def Let_def)

lemma chain_next_props:
  "subs (chain_next E tid i st) = subs st"
  "c_calls (chain_next E tid i st) = c_calls st"
  by (simp_all add: chain_next_def Let_def)


lemma sub_outcome_running [simp]:
  "sub_outcome E tid (s\<lparr>s_status := a, s_startTime := b\<rparr>) i = sub_outcome E tid s i"
  "sub_calls E tid (s\<lparr>s_status := a, s_startTime := b\<rparr>) i = sub_calls E tid s i"
  by (simp_all add: sub_outcome_def sub_calls_def split: option.splits prod.splits)

lemma chain_body_length:
  "length (subs (snd (chain_body E tid i st))) = length (subs st)"
  by (simp add: chain_body_def chain_check_props chain_copy_back_props chain_caught_props
        chain_run_props chain_start_props split: prod.splits option.splits)
     (metis chain_run_props(1) chain_start_props(1) length_list_update snd_conv)

lemma chain_iter_length:
  "length (subs (snd (chain_iter E tid i st))) = length (subs st)"
  using chain_body_length [of E tid i st]
  by (cases "chain_body E tid i st")
     (simp add: chain_iter_def chain_next_props split: bool.splits)




lemma chain_iter_frame:
  assumes "j \<noteq> i"
  shows "subs (snd (chain_iter E tid i st)) ! j = subs st ! j"
proof -
  obtain res st1 where r: "chain_run E tid i (chain_start E tid i st) = (res, st1)"
    by (cases "chain_run E tid i (chain_start E tid i st)")
  have s1: "subs st1 = (subs st)[i := (subs st ! i)\<lparr>s_status := ''running'', s_startTime := Val (clock E)\<rparr>]"
    using chain_run_props(1) [of E tid i "chain_start E tid i st"] r
    by (simp add: chain_start_props)
  have "subs (snd (chain_body E tid i st)) ! j = subs st ! j"
    using assms s1
    by (simp add: chain_body_def r chain_check_props chain_copy_back_props chain_caught_props
        split: option.splits)
  then show ?thesis
    by (cases "chain_body E tid i st")
       (simp add: chain_iter_def chain_next_props split: bool.splits)
qed

lemma chain_iter_calls:
  assumes "i < length (subs st)"
  shows "c_calls (snd (chain_iter E tid i st)) = c_calls st @ sub_calls E tid (subs st ! i) i"
proof -
  obtain res st1 where r: "chain_run E tid i (chain_start E tid i st) = (res, st1)"
    by (cases "chain_run E tid i (chain_start E tid i st)")
  have s1: "c_calls st1 = c_calls st @ sub_calls E tid (subs st ! i) i"
    using chain_run_props(2) [of E tid i "chain_start E tid i st"] r assms
    by (simp add: chain_start_props)
  have "c_calls (snd (chain_body E tid i st)) = c_calls st @ sub_calls E tid (subs st ! i) i"
    using s1
    by (simp add: chain_body_def r chain_check_props chain_copy_back_props chain_caught_props
        split: option.splits)
  then show ?thesis
    by (cases "chain_body E tid i st")
       (simp add: chain_iter_def chain_next_props split: bool.splits)
qed

text \<open>What an iteration does, by the outcome of the runner.\<close>

lemma chain_iter_cases:
  assumes i: "i < length (subs st)"
  shows "sub_outcome E tid (subs st ! i) i = None \<Longrightarrow>
           fst (chain_iter E tid i st) = False \<and>
           s_status (subs (snd (chain_iter E tid i st)) ! i) = ''running''"
    and "sub_outcome E tid (subs st ! i) i = Some r \<Longrightarrow> rr_thrown r = Some m \<Longrightarrow>
           fst (chain_iter E tid i st) = True \<and>
           t_status (c_task (snd (chain_iter E tid i st))) = ''error'' \<and>
           t_error (c_task (snd (chain_iter E tid i st)))
             = Val (''Subtask '' @ show_nat (i + 1) @ '' exception: '' @ m)"
    and "sub_outcome E tid (subs st ! i) i = Some r \<Longrightarrow> rr_thrown r = None \<Longrightarrow>
           t_status (rr_task r) = ''error'' \<Longrightarrow>
           fst (chain_iter E tid i st) = True \<and>
           t_status (c_task (snd (chain_iter E tid i st))) = ''error'' \<and>
           t_error (c_task (snd (chain_iter E tid i st)))
             = Val (''Subtask '' @ show_nat (i + 1) @ '' failed: '' @ tpl (t_error (rr_task r)))"
    and "sub_outcome E tid (subs st ! i) i = Some r \<Longrightarrow> rr_thrown r = None \<Longrightarrow>
           t_status (rr_task r) \<noteq> ''error'' \<Longrightarrow>
           fst (chain_iter E tid i st) = False \<and>
           s_status (subs (snd (chain_iter E tid i st)) ! i) = t_status (rr_task r)"
proof -
  obtain res st1 where r: "chain_run E tid i (chain_start E tid i st) = (res, st1)"
    by (cases "chain_run E tid i (chain_start E tid i st)")
  have s1: "subs st1 = (subs st)[i := (subs st ! i)\<lparr>s_status := ''running'', s_startTime := Val (clock E)\<rparr>]"
    using chain_run_props(1) [of E tid i "chain_start E tid i st"] r
    by (simp add: chain_start_props)
  have res: "res = (case sub_outcome E tid (subs st ! i) i of
          None \<Rightarrow> \<lparr>rr_task = tempTask_of (clock E) (subs st ! i), rr_screenshots = Some [],
                    rr_thrown = None\<rparr>
        | Some r \<Rightarrow> r)"
    using chain_run_props(3) [of E tid i "chain_start E tid i st"] r i
    by (simp add: chain_start_props split: option.splits)
  have body: "chain_iter E tid i st =
      (case chain_body E tid i st of (True, st') \<Rightarrow> (True, st')
        | (False, st') \<Rightarrow> (False, chain_next E tid i st'))"
    by (simp add: chain_iter_def)
  show "sub_outcome E tid (subs st ! i) i = None \<Longrightarrow>
           fst (chain_iter E tid i st) = False \<and>
           s_status (subs (snd (chain_iter E tid i st)) ! i) = ''running''"
    using i s1 res
    by (simp add: body chain_body_def r chain_check_def chain_copy_back_props
        chain_next_props tempTask_of_def Let_def)
  show "sub_outcome E tid (subs st ! i) i = Some r \<Longrightarrow> rr_thrown r = Some m \<Longrightarrow>
           fst (chain_iter E tid i st) = True \<and>
           t_status (c_task (snd (chain_iter E tid i st))) = ''error'' \<and>
           t_error (c_task (snd (chain_iter E tid i st)))
             = Val (''Subtask '' @ show_nat (i + 1) @ '' exception: '' @ m)"
    using i s1 res
    by (simp add: body chain_body_def r chain_caught_props)
  show "sub_outcome E tid (subs st ! i) i = Some r \<Longrightarrow> rr_thrown r = None \<Longrightarrow>
           t_status (rr_task r) = ''error'' \<Longrightarrow>
           fst (chain_iter E tid i st) = True \<and>
           t_status (c_task (snd (chain_iter E tid i st))) = ''error'' \<and>
           t_error (c_task (snd (chain_iter E tid i st)))
             = Val (''Subtask '' @ show_nat (i + 1) @ '' failed: '' @ tpl (t_error (rr_task r)))"
    using i s1 res
    by (simp add: body chain_body_def r chain_check_def chain_copy_back_props Let_def)
  show "sub_outcome E tid (subs st ! i) i = Some r \<Longrightarrow> rr_thrown r = None \<Longrightarrow>
           t_status (rr_task r) \<noteq> ''error'' \<Longrightarrow>
           fst (chain_iter E tid i st) = False \<and>
           s_status (subs (snd (chain_iter E tid i st)) ! i) = t_status (rr_task r)"
    using i s1 res
    by (simp add: body chain_body_def r chain_check_def chain_copy_back_props
        chain_next_props Let_def)
qed


lemma chain_iter_flag:
  assumes "i < length (subs st)"
  shows "fst (chain_iter E tid i st) = (\<not> sub_passes (sub_outcome E tid (subs st ! i) i))"
proof (cases "sub_outcome E tid (subs st ! i) i")
  case None
  then show ?thesis using chain_iter_cases(1) [OF assms None] by (simp add: sub_passes_def)
next
  case (Some r)
  show ?thesis
  proof (cases "rr_thrown r")
    case (Some m)
    then show ?thesis
      using chain_iter_cases(2) [OF assms \<open>sub_outcome E tid (subs st ! i) i = Some r\<close> Some]
      by (simp add: sub_passes_def \<open>sub_outcome E tid (subs st ! i) i = Some r\<close>)
  next
    case None
    then show ?thesis
      using chain_iter_cases(3,4) [OF assms \<open>sub_outcome E tid (subs st ! i) i = Some r\<close> None]
      by (cases "t_status (rr_task r) = ''error''")
         (simp_all add: sub_passes_def \<open>sub_outcome E tid (subs st ! i) i = Some r\<close>)
  qed
qed

lemma calls_for_Cons:
  "calls_for E tid sts (j # js) = sub_calls E tid (sts ! j) j @ calls_for E tid sts js"
  by (simp add: calls_for_def)

text \<open>The loop, as long as no subtask stops the chain.\<close>

lemma chain_loop_pass:
  assumes "\<forall>j. i \<le> j \<and> j < length (subs st) \<longrightarrow> sub_passes (sub_outcome E tid (subs st ! j) j)"
  shows "fst (chain_loop E tid i st) = False \<and>
         length (subs (snd (chain_loop E tid i st))) = length (subs st) \<and>
         c_calls (snd (chain_loop E tid i st))
           = c_calls st @ calls_for E tid (subs st) [i..<length (subs st)] \<and>
         (\<forall>j. i \<le> j \<and> j < length (subs st) \<and> sub_outcome E tid (subs st ! j) j = None
               \<longrightarrow> s_status (subs (snd (chain_loop E tid i st)) ! j) = ''running'') \<and>
         (\<forall>j < i. subs (snd (chain_loop E tid i st)) ! j = subs st ! j)"
  using assms
proof (induction E tid i st rule: chain_loop.induct)
  case (1 E tid i st)
  show ?case
  proof (cases "i < length (subs st)")
    case False
    then show ?thesis by (auto simp add: chain_loop.simps [of E tid i st] calls_for_def)
  next
    case True
    obtain b st' where it: "chain_iter E tid i st = (b, st')" by (cases "chain_iter E tid i st")
    have pass: "sub_passes (sub_outcome E tid (subs st ! i) i)" using "1.prems" True by simp
    have b: "b = False" using chain_iter_flag [OF True, of E tid] it pass by simp
    have len: "length (subs st') = length (subs st)"
      using chain_iter_length [of E tid i st] it by simp
    have frame: "\<And>j. j \<noteq> i \<Longrightarrow> subs st' ! j = subs st ! j"
      using chain_iter_frame [of _ i E tid st] it by simp
    have calls: "c_calls st' = c_calls st @ sub_calls E tid (subs st ! i) i"
      using chain_iter_calls [OF True, of E tid] it by simp
    have prem': "\<forall>j. i + 1 \<le> j \<and> j < length (subs st') \<longrightarrow>
        sub_passes (sub_outcome E tid (subs st' ! j) j)"
      using "1.prems" len frame by simp
    note IH = "1.IH" [OF True it [symmetric] b prem']
    have loop: "chain_loop E tid i st = chain_loop E tid (i + 1) st'"
      using True it b by (simp add: chain_loop.simps [of E tid i st])
    have upt: "[i..<length (subs st)] = i # [i + 1..<length (subs st)]"
      using True by (simp add: upt_conv_Cons)
    have cf: "calls_for E tid (subs st') [i + 1..<length (subs st)]
        = calls_for E tid (subs st) [i + 1..<length (subs st)]"
      unfolding calls_for_def using frame
      by (intro arg_cong [where f = concat] map_cong) auto
    have running: "sub_outcome E tid (subs st ! i) i = None \<Longrightarrow>
        s_status (subs (snd (chain_loop E tid (i + 1) st')) ! i) = ''running''"
    proof -
      assume n: "sub_outcome E tid (subs st ! i) i = None"
      have "s_status (subs st' ! i) = ''running''"
        using chain_iter_cases(1) [OF True n] it by simp
      moreover have "subs (snd (chain_loop E tid (i + 1) st')) ! i = subs st' ! i"
        using IH by simp
      ultimately show ?thesis by simp
    qed
    have c1: "fst (chain_loop E tid (i + 1) st') = False" using IH by simp
    have c2: "length (subs (snd (chain_loop E tid (i + 1) st'))) = length (subs st)"
      using IH len by simp
    have c3: "c_calls (snd (chain_loop E tid (i + 1) st'))
           = c_calls st @ calls_for E tid (subs st) [i..<length (subs st)]"
      using IH len calls cf by (simp add: upt calls_for_def)
    have c4: "s_status (subs (snd (chain_loop E tid (i + 1) st')) ! j) = ''running''"
      if "i \<le> j" "j < length (subs st)" "sub_outcome E tid (subs st ! j) j = None" for j
    proof (cases "j = i")
      case True
      then show ?thesis using running that by simp
    next
      case False
      then have "i + 1 \<le> j" "subs st' ! j = subs st ! j" using that frame by simp_all
      then show ?thesis using IH that len by simp
    qed
    have c5: "subs (snd (chain_loop E tid (i + 1) st')) ! j = subs st ! j" if "j < i" for j
      using IH that frame [of j] by simp
    show ?thesis
      unfolding loop using c1 c2 c3 c4 c5 by blast
  qed
qed


text \<open>The loop, when the subtask at index \<open>k\<close> is the first that ends in \<^verbatim>\<open>error\<close>.\<close>

lemma chain_loop_abort:
  assumes "i \<le> k" and "k < length (subs st)"
    and "\<forall>j. i \<le> j \<and> j < k \<longrightarrow> sub_passes (sub_outcome E tid (subs st ! j) j)"
    and "sub_outcome E tid (subs st ! k) k = Some r"
    and "rr_thrown r = None" and "t_status (rr_task r) = ''error''"
  shows "fst (chain_loop E tid i st) = True \<and>
         t_status (c_task (snd (chain_loop E tid i st))) = ''error'' \<and>
         t_error (c_task (snd (chain_loop E tid i st)))
           = Val (''Subtask '' @ show_nat (k + 1) @ '' failed: '' @ tpl (t_error (rr_task r))) \<and>
         c_calls (snd (chain_loop E tid i st)) = c_calls st @ calls_for E tid (subs st) [i..<k + 1] \<and>
         (\<forall>j. k < j \<longrightarrow> subs (snd (chain_loop E tid i st)) ! j = subs st ! j)"
  using assms
proof (induction E tid i st rule: chain_loop.induct)
  case (1 E tid i st)
  have True: "i < length (subs st)" using "1.prems" by simp
  obtain b st' where it: "chain_iter E tid i st = (b, st')" by (cases "chain_iter E tid i st")
  have len: "length (subs st') = length (subs st)"
    using chain_iter_length [of E tid i st] it by simp
  have frame: "\<And>j. j \<noteq> i \<Longrightarrow> subs st' ! j = subs st ! j"
    using chain_iter_frame [of _ i E tid st] it by simp
  have calls: "c_calls st' = c_calls st @ sub_calls E tid (subs st ! i) i"
    using chain_iter_calls [OF True, of E tid] it by simp
  show ?case
  proof (cases "i = k")
    case ik: True
    have f: "b = True" "t_status (c_task st') = ''error''"
      "t_error (c_task st')
         = Val (''Subtask '' @ show_nat (k + 1) @ '' failed: '' @ tpl (t_error (rr_task r)))"
      using chain_iter_cases(3) [OF True, of E tid r] "1.prems"(4,5,6) it ik by simp_all
    have loop: "chain_loop E tid i st = (True, st')"
      using True it f(1) by (simp add: chain_loop.simps [of E tid i st])
    show ?thesis
      unfolding loop using f calls frame ik by (simp add: calls_for_def)
  next
    case False
    then have lt: "i < k" using "1.prems"(1) by simp
    have pass: "sub_passes (sub_outcome E tid (subs st ! i) i)" using "1.prems"(3) lt by simp
    have b: "b = False" using chain_iter_flag [OF True, of E tid] it pass by simp
    have loop: "chain_loop E tid i st = chain_loop E tid (i + 1) st'"
      using True it b by (simp add: chain_loop.simps [of E tid i st])
    have p1: "i + 1 \<le> k" using lt by simp
    have p2: "k < length (subs st')" using "1.prems"(2) len by simp
    have p3: "\<forall>j. i + 1 \<le> j \<and> j < k \<longrightarrow> sub_passes (sub_outcome E tid (subs st' ! j) j)"
      using "1.prems"(3) frame by simp
    have p4: "sub_outcome E tid (subs st' ! k) k = Some r"
      using "1.prems"(4) frame [of k] lt by simp
    note IH = "1.IH" [OF True it [symmetric] b p1 p2 p3 p4 "1.prems"(5,6)]
    have upt: "[i..<k + 1] = i # [i + 1..<k + 1]"
      using lt by (simp add: upt_conv_Cons)
    have cf: "calls_for E tid (subs st') [i + 1..<k + 1] = calls_for E tid (subs st) [i + 1..<k + 1]"
      unfolding calls_for_def using frame
      by (intro arg_cong [where f = concat] map_cong) auto
    from IH have x: "c_calls (snd (chain_loop E tid (i + 1) st'))
        = c_calls st' @ calls_for E tid (subs st') [i + 1..<k + 1]" by blast
    have c4: "c_calls (snd (chain_loop E tid (i + 1) st'))
        = c_calls st @ calls_for E tid (subs st) [i..<k + 1]"
      by (simp only: x calls cf upt calls_for_Cons append_assoc)
    have c5: "subs (snd (chain_loop E tid (i + 1) st')) ! j = subs st ! j" if "k < j" for j
      using IH that frame [of j] lt by simp
    show ?thesis
      unfolding loop using IH c4 c5 by blast
  qed
qed


lemma show_nat_small:
  "show_nat 0 = ''0''" "show_nat 1 = ''1''" "show_nat 2 = ''2''" "show_nat 3 = ''3''"
  "show_nat (Suc 0) = ''1''" "show_nat (Suc (Suc 0)) = ''2''"
  "show_nat (Suc (Suc (Suc 0))) = ''3''"
  by (simp_all add: show_nat.simps digit_char_def)

lemma runChainedTask_abort:
  assumes "t_subtasks (c_task st) = Some sts" and "k < length sts"
    and "\<forall>j<k. sub_passes (sub_outcome E tid (sts ! j) j)"
    and "sub_outcome E tid (sts ! k) k = Some r"
    and "rr_thrown r = None" and "t_status (rr_task r) = ''error''"
  shows "fst (runChainedTask E tid st) = None"
    and "t_status (c_task (snd (runChainedTask E tid st))) = ''error''"
    and "t_error (c_task (snd (runChainedTask E tid st)))
           = Val (''Subtask '' @ show_nat (k + 1) @ '' failed: '' @ tpl (t_error (rr_task r)))"
    and "c_calls (snd (runChainedTask E tid st)) = c_calls st @ calls_for E tid sts [0..<k + 1]"
    and "\<forall>j. k < j \<longrightarrow> subs (snd (runChainedTask E tid st)) ! j = sts ! j"
proof -
  define st2 where "st2 = chain_log E (''Total subtasks: '' @ show_nat (length sts))
      (chain_log E (''Starting chained task: '' @ tpl (t_name (c_task st))) st)"
  have s: "subs st2 = sts" "c_calls st2 = c_calls st"
    using assms(1) by (simp_all add: st2_def) (simp add: subtasks_of_def)
  have t: "t_subtasks (c_task (chain_log E (''Starting chained task: '' @ tpl (t_name (c_task st))) st)) = Some sts"
    using assms(1) by (simp add: chain_log_def)
  note L = chain_loop_abort [of 0 k st2 E tid r, unfolded s, OF _ assms(2) _ assms(4,5,6)]
  have L': "fst (chain_loop E tid 0 st2) = True \<and>
         t_status (c_task (snd (chain_loop E tid 0 st2))) = ''error'' \<and>
         t_error (c_task (snd (chain_loop E tid 0 st2)))
           = Val (''Subtask '' @ show_nat (k + 1) @ '' failed: '' @ tpl (t_error (rr_task r))) \<and>
         c_calls (snd (chain_loop E tid 0 st2)) = c_calls st @ calls_for E tid sts [0..<k + 1] \<and>
         (\<forall>j. k < j \<longrightarrow> subs (snd (chain_loop E tid 0 st2)) ! j = sts ! j)"
    using L assms(3) by simp
  obtain st3 where l: "chain_loop E tid 0 st2 = (True, st3)"
    using L' by (cases "chain_loop E tid 0 st2") auto
  have run: "runChainedTask E tid st = (None, st3)"
    by (simp only: runChainedTask_def Let_def t option.case st2_def [symmetric] l
          prod.case bool.case)
  show "fst (runChainedTask E tid st) = None"
    and "t_status (c_task (snd (runChainedTask E tid st))) = ''error''"
    and "t_error (c_task (snd (runChainedTask E tid st)))
           = Val (''Subtask '' @ show_nat (k + 1) @ '' failed: '' @ tpl (t_error (rr_task r)))"
    and "c_calls (snd (runChainedTask E tid st)) = c_calls st @ calls_for E tid sts [0..<k + 1]"
    and "\<forall>j. k < j \<longrightarrow> subs (snd (runChainedTask E tid st)) ! j = sts ! j"
    using L' by (simp_all add: run l)
qed

lemma runChainedTask_complete:
  assumes "t_subtasks (c_task st) = Some sts"
    and "\<forall>j<length sts. sub_passes (sub_outcome E tid (sts ! j) j)"
  shows "fst (runChainedTask E tid st) = None"
    and "t_status (c_task (snd (runChainedTask E tid st))) = ''completed''"
    and "c_calls (snd (runChainedTask E tid st)) = c_calls st @ calls_for E tid sts [0..<length sts]"
    and "\<forall>j<length sts. sub_outcome E tid (sts ! j) j = None \<longrightarrow>
           s_status (subs (snd (runChainedTask E tid st)) ! j) = ''running''"
proof -
  define st2 where "st2 = chain_log E (''Total subtasks: '' @ show_nat (length sts))
      (chain_log E (''Starting chained task: '' @ tpl (t_name (c_task st))) st)"
  have s: "subs st2 = sts" "c_calls st2 = c_calls st"
    using assms(1) by (simp_all add: st2_def) (simp add: subtasks_of_def)
  have t: "t_subtasks (c_task (chain_log E (''Starting chained task: '' @ tpl (t_name (c_task st))) st)) = Some sts"
    using assms(1) by (simp add: chain_log_def)
  have L: "fst (chain_loop E tid 0 st2) = False \<and>
         length (subs (snd (chain_loop E tid 0 st2))) = length sts \<and>
         c_calls (snd (chain_loop E tid 0 st2)) = c_calls st @ calls_for E tid sts [0..<length sts] \<and>
         (\<forall>j. 0 \<le> j \<and> j < length sts \<and> sub_outcome E tid (sts ! j) j = None
               \<longrightarrow> s_status (subs (snd (chain_loop E tid 0 st2)) ! j) = ''running'')"
    using chain_loop_pass [of 0 st2 E tid, unfolded s] assms(2) by simp
  obtain st3 where l: "chain_loop E tid 0 st2 = (False, st3)"
    using L by (cases "chain_loop E tid 0 st2") auto
  have run: "runChainedTask E tid st
      = (None, saveTaskToDb tid
           (chain_log E (''Total subtasks: '' @ show_nat (length (subs st3)))
             (chain_log E ([CHR 0x0A] @ ''=== Chained task completed! ==='')
               (st3\<lparr>c_task := (c_task st3)\<lparr>t_status := ''completed'',
                      t_stage := Val ''All subtasks completed'', t_endTime := Val (clock E),
                      t_result := Val (''Completed '' @ show_nat (length (subs st3)) @ '' subtasks'')\<rparr>\<rparr>))))"
    by (simp only: runChainedTask_def Let_def t option.case st2_def [symmetric] l
          prod.case bool.case)
  have sub3: "subtasks_of (t\<lparr>t_status := a, t_stage := b, t_endTime := c, t_result := d\<rparr>)
      = subtasks_of t" for t a b c d
    by (simp add: subtasks_of_def)
  show "fst (runChainedTask E tid st) = None" by (simp add: run)
  show "t_status (c_task (snd (runChainedTask E tid st))) = ''completed''" by (simp add: run)
  show "c_calls (snd (runChainedTask E tid st)) = c_calls st @ calls_for E tid sts [0..<length sts]"
    using L by (simp add: run l)
  show "\<forall>j<length sts. sub_outcome E tid (sts ! j) j = None \<longrightarrow>
           s_status (subs (snd (runChainedTask E tid st)) ! j) = ''running''"
    using L by (simp add: run l sub3)
qed


text \<open>
  Claim C2 (as amended). In \<^verbatim>\<open>runChainedTask\<close>, let the subtask at index \<open>k\<close> be the first
  whose runner returns with status \<^verbatim>\<open>error\<close>, every earlier subtask having let the chain
  go on. Then the function returns with the parent in status \<^verbatim>\<open>error\<close>; the parent's error
  message is \<^verbatim>\<open>Subtask\<close>, the position \<open>k + 1\<close> of the failing subtask counted from one,
  \<^verbatim>\<open>failed:\<close> and the subtask's error message; the runners were invoked for the
  subtasks up to index \<open>k\<close> only, and every later subtask is as it was before the run.
\<close>

theorem chain_abort_on_failure:
  assumes "t_subtasks (c_task st) = Some sts" and "k < length sts"
    and "\<forall>j<k. sub_passes (sub_outcome E taskId (sts ! j) j)"
    and "sub_outcome E taskId (sts ! k) k = Some r"
    and "rr_thrown r = None" and "t_status (rr_task r) = ''error''"
  shows "fst (runChainedTask E taskId st) = None \<and>
         t_status (c_task (snd (runChainedTask E taskId st))) = ''error'' \<and>
         t_error (c_task (snd (runChainedTask E taskId st)))
           = Val (''Subtask '' @ show_nat (k + 1) @ '' failed: '' @ tpl (t_error (rr_task r))) \<and>
         c_calls (snd (runChainedTask E taskId st))
           = c_calls st @ calls_for E taskId sts [0..<k + 1] \<and>
         (\<forall>j. k < j \<and> j < length sts \<longrightarrow>
            subtasks_of (c_task (snd (runChainedTask E taskId st))) ! j = sts ! j)"
  using runChainedTask_abort [OF assms] by simp

lemma abc_outcomes:
  "sub_outcome (ctx_with second_fails) ''chained_1'' (abc ! 0) 0
     = Some (completing (tempTask_of ''2024-01-01T00:00:00.000Z'' (abc ! 0)))"
  "sub_outcome (ctx_with second_fails) ''chained_1'' (abc ! 1) 1
     = Some (failing ''boom'' (tempTask_of ''2024-01-01T00:00:00.000Z'' (abc ! 1)))"
  by (simp_all add: sub_outcome_def runner_for_def tempTask_of_def resolve_type_def abc_def
        plain_subtask_def ctx_with_def second_fails_def tempTaskId_of_def show_nat_small)

lemma abc_calls:
  "calls_for (ctx_with second_fails) ''chained_1'' abc [0..<1 + 1]
     = [(Janus, ''chained_1_sub0'', tempTask_of ''2024-01-01T00:00:00.000Z'' (abc ! 0)),
        (Janus, ''chained_1_sub1'', tempTask_of ''2024-01-01T00:00:00.000Z'' (abc ! 1))]"
  by (simp add: calls_for_def sub_calls_def runner_for_def tempTask_of_def resolve_type_def
        abc_def plain_subtask_def ctx_with_def tempTaskId_of_def show_nat_small upt_rec)

lemma abc_hyps:
  "t_subtasks (c_task (chain_of abc)) = Some abc" "1 < length abc"
  "\<forall>j<1. sub_passes (sub_outcome (ctx_with second_fails) ''chained_1'' (abc ! j) j)"
  "rr_thrown (failing ''boom'' (tempTask_of ''2024-01-01T00:00:00.000Z'' (abc ! 1))) = None"
  "t_status (rr_task (failing ''boom'' (tempTask_of ''2024-01-01T00:00:00.000Z'' (abc ! 1)))) = ''error''"
  "t_error (rr_task (failing ''boom'' (tempTask_of ''2024-01-01T00:00:00.000Z'' (abc ! 1)))) = Val ''boom''"
  "c_calls (chain_of abc) = []"
  by (simp_all add: chain_of_def abc_def abc_outcomes [unfolded abc_def, simplified]
        sub_passes_def completing_def failing_def)

text \<open>The theorem for a chain of three subtasks of which the second fails with
  the message \<^verbatim>\<open>boom\<close>: the third is not started, and the parent's error names subtask 2.\<close>

theorem chain_abort_on_failure_witness:
  "t_subtasks (c_task (chain_of abc)) = Some abc \<and> 1 < length abc \<and>
   sub_passes (sub_outcome (ctx_with second_fails) ''chained_1'' (abc ! 0) 0) \<and>
   sub_outcome (ctx_with second_fails) ''chained_1'' (abc ! 1) 1
     = Some (failing ''boom'' (tempTask_of ''2024-01-01T00:00:00.000Z'' (abc ! 1))) \<and>
   fst (runChainedTask (ctx_with second_fails) ''chained_1'' (chain_of abc)) = None \<and>
   t_status (c_task (snd (runChainedTask (ctx_with second_fails) ''chained_1'' (chain_of abc))))
     = ''error'' \<and>
   t_error (c_task (snd (runChainedTask (ctx_with second_fails) ''chained_1'' (chain_of abc))))
     = Val ''Subtask 2 failed: boom'' \<and>
   map (fst \<circ> snd)
     (c_calls (snd (runChainedTask (ctx_with second_fails) ''chained_1'' (chain_of abc))))
     = [''chained_1_sub0'', ''chained_1_sub1''] \<and>
   subtasks_of (c_task (snd (runChainedTask (ctx_with second_fails) ''chained_1'' (chain_of abc)))) ! 2
     = abc ! 2"
proof -
  note th = chain_abort_on_failure [OF abc_hyps(1) abc_hyps(2) abc_hyps(3) abc_outcomes(2)
        abc_hyps(4) abc_hyps(5)]
  have e1: "fst (runChainedTask (ctx_with second_fails) ''chained_1'' (chain_of abc)) = None"
    using th by blast
  have e2: "t_status (c_task (snd (runChainedTask (ctx_with second_fails) ''chained_1''
      (chain_of abc)))) = ''error''"
    using th by blast
  have e3: "t_error (c_task (snd (runChainedTask (ctx_with second_fails) ''chained_1''
      (chain_of abc)))) = Val ''Subtask 2 failed: boom''"
    using th by (simp add: show_nat_small failing_def)
  from th have "c_calls (snd (runChainedTask (ctx_with second_fails) ''chained_1'' (chain_of abc)))
      = c_calls (chain_of abc) @ calls_for (ctx_with second_fails) ''chained_1'' abc [0..<1 + 1]"
    by blast
  then have e4: "map (fst \<circ> snd)
     (c_calls (snd (runChainedTask (ctx_with second_fails) ''chained_1'' (chain_of abc))))
     = [''chained_1_sub0'', ''chained_1_sub1'']"
    by (simp only: abc_calls abc_hyps(7)) simp
  have "(1::nat) < 2 \<and> 2 < length abc" by (simp add: abc_def)
  with th have e5: "subtasks_of (c_task (snd (runChainedTask (ctx_with second_fails)
      ''chained_1'' (chain_of abc)))) ! 2 = abc ! 2"
    by blast
  have e0: "sub_passes (sub_outcome (ctx_with second_fails) ''chained_1'' (abc ! 0) 0)"
    using abc_hyps(3) by simp
  show ?thesis
    by (intro conjI) (rule abc_hyps abc_outcomes e0 e1 e2 e3 e4 e5)+
qed

text \<open>In the same run the failing subtask has index 1, and the parent's error message
  does not contain the digit 1.\<close>

theorem chain_error_index_counterexample:
  "t_error (c_task (snd (runChainedTask (ctx_with second_fails) ''chained_1'' (chain_of abc))))
     = Val ''Subtask 2 failed: boom'' \<and>
   \<not> includes_str ''Subtask 2 failed: boom'' ''1''"
proof -
  have two: "show_nat (1 + 1) = ''2''" by (simp add: show_nat_small)
  have "t_error (c_task (snd (runChainedTask (ctx_with second_fails) ''chained_1'' (chain_of abc))))
     = Val ''Subtask 2 failed: boom''"
    using runChainedTask_abort(3) [OF abc_hyps(1) abc_hyps(2) abc_hyps(3) abc_outcomes(2)
        abc_hyps(4) abc_hyps(5)]
    by (simp add: show_nat_small failing_def)
  then show ?thesis by simp
qed


lemma no_runner:
  assumes "resolve_type (s_type subtask) \<noteq> Val ''janus_mini_update''"
    and "resolve_type (s_type subtask) \<noteq> Val ''janus_workorder_execute''"
  shows "sub_outcome E taskId subtask i = None" and "sub_calls E taskId subtask i = []"
  using assms by (simp_all add: sub_outcome_def sub_calls_def runner_for_def tempTask_of_def)

text \<open>
  Claim C10. Let the subtask at index \<open>k\<close> of a chained task have a resolved type that is
  neither \<^verbatim>\<open>janus_mini_update\<close> nor \<^verbatim>\<open>janus_workorder_execute\<close>, and let no other subtask
  stop the chain (in particular, let each of them complete). Then \<^verbatim>\<open>runChainedTask\<close>
  invokes no runner for subtask \<open>k\<close>, the runners for the other subtasks are all invoked,
  before and after it, the status copied to subtask \<open>k\<close> is \<^verbatim>\<open>running\<close>, and the parent
  ends in status \<^verbatim>\<open>completed\<close>.
\<close>

theorem chain_skips_unknown_type:
  assumes "t_subtasks (c_task st) = Some sts" and "k < length sts"
    and "resolve_type (s_type (sts ! k)) \<noteq> Val ''janus_mini_update''"
    and "resolve_type (s_type (sts ! k)) \<noteq> Val ''janus_workorder_execute''"
    and "\<forall>j<length sts. j \<noteq> k \<longrightarrow> sub_passes (sub_outcome E taskId (sts ! j) j)"
  shows "sub_calls E taskId (sts ! k) k = [] \<and>
         c_calls (snd (runChainedTask E taskId st))
           = c_calls st @ calls_for E taskId sts [0..<length sts] \<and>
         s_status (subtasks_of (c_task (snd (runChainedTask E taskId st))) ! k) = ''running'' \<and>
         fst (runChainedTask E taskId st) = None \<and>
         t_status (c_task (snd (runChainedTask E taskId st))) = ''completed''"
proof -
  note n = no_runner [OF assms(3,4), of E taskId k]
  have all: "\<forall>j<length sts. sub_passes (sub_outcome E taskId (sts ! j) j)"
  proof (intro allI impI)
    fix j assume "j < length sts"
    then show "sub_passes (sub_outcome E taskId (sts ! j) j)"
      using assms(5) n(1) by (cases "j = k") (simp_all add: sub_passes_def)
  qed
  show ?thesis
    using runChainedTask_complete [OF assms(1) all] n assms(2) by simp
qed

lemma axc_hyps:
  "t_subtasks (c_task (chain_of axc)) = Some axc" "1 < length axc"
  "resolve_type (s_type (axc ! 1)) \<noteq> Val ''janus_mini_update''"
  "resolve_type (s_type (axc ! 1)) \<noteq> Val ''janus_workorder_execute''"
  "\<forall>j<length axc. j \<noteq> 1 \<longrightarrow> sub_passes (sub_outcome (ctx_with (\<lambda>i. completing)) ''chained_2'' (axc ! j) j)"
  "c_calls (chain_of axc) = []"
proof -
  have "j = 0 \<or> j = 2" if "j < length axc" "j \<noteq> 1" for j
    using that by (auto simp: axc_def)
  moreover have "sub_passes (sub_outcome (ctx_with (\<lambda>i. completing)) ''chained_2'' (axc ! 0) 0)"
    "sub_passes (sub_outcome (ctx_with (\<lambda>i. completing)) ''chained_2'' (axc ! 2) 2)"
    by (simp_all add: sub_outcome_def runner_for_def tempTask_of_def resolve_type_def axc_def
        plain_subtask_def ctx_with_def sub_passes_def completing_def)
  ultimately show "\<forall>j<length axc. j \<noteq> 1 \<longrightarrow>
      sub_passes (sub_outcome (ctx_with (\<lambda>i. completing)) ''chained_2'' (axc ! j) j)"
    by blast
qed (simp_all add: chain_of_def axc_def plain_subtask_def resolve_type_def)

lemma axc_calls:
  "map (fst \<circ> snd) (calls_for (ctx_with (\<lambda>i. completing)) ''chained_2'' axc [0..<length axc])
     = [''chained_2_sub0'', ''chained_2_sub2'']"
  by (simp add: calls_for_def sub_calls_def runner_for_def tempTask_of_def resolve_type_def
        axc_def plain_subtask_def ctx_with_def tempTaskId_of_def show_nat_small upt_rec)

text \<open>The theorem for a chain whose second subtask has the type \<^verbatim>\<open>custom\<close>.\<close>

theorem chain_skips_unknown_type_witness:
  "t_subtasks (c_task (chain_of axc)) = Some axc \<and> 1 < length axc \<and>
   resolve_type (s_type (axc ! 1)) \<noteq> Val ''janus_mini_update'' \<and>
   resolve_type (s_type (axc ! 1)) \<noteq> Val ''janus_workorder_execute'' \<and>
   sub_passes (sub_outcome (ctx_with (\<lambda>i. completing)) ''chained_2'' (axc ! 0) 0) \<and>
   sub_passes (sub_outcome (ctx_with (\<lambda>i. completing)) ''chained_2'' (axc ! 2) 2) \<and>
   map (fst \<circ> snd)
     (c_calls (snd (runChainedTask (ctx_with (\<lambda>i. completing)) ''chained_2'' (chain_of axc))))
     = [''chained_2_sub0'', ''chained_2_sub2''] \<and>
   s_status (subtasks_of (c_task (snd (runChainedTask (ctx_with (\<lambda>i. completing)) ''chained_2''
      (chain_of axc)))) ! 1) = ''running'' \<and>
   fst (runChainedTask (ctx_with (\<lambda>i. completing)) ''chained_2'' (chain_of axc)) = None \<and>
   t_status (c_task (snd (runChainedTask (ctx_with (\<lambda>i. completing)) ''chained_2''
      (chain_of axc)))) = ''completed''"
proof -
  note th = chain_skips_unknown_type [OF axc_hyps(1) axc_hyps(2) axc_hyps(3) axc_hyps(4)
      axc_hyps(5)]
  from th have "c_calls (snd (runChainedTask (ctx_with (\<lambda>i. completing)) ''chained_2'' (chain_of axc)))
      = c_calls (chain_of axc)
        @ calls_for (ctx_with (\<lambda>i. completing)) ''chained_2'' axc [0..<length axc]"
    by blast
  then have e1: "map (fst \<circ> snd)
     (c_calls (snd (runChainedTask (ctx_with (\<lambda>i. completing)) ''chained_2'' (chain_of axc))))
     = [''chained_2_sub0'', ''chained_2_sub2'']"
    by (simp only: axc_hyps(6) append_Nil axc_calls)
  from th have e2: "s_status (subtasks_of (c_task (snd (runChainedTask
      (ctx_with (\<lambda>i. completing)) ''chained_2'' (chain_of axc)))) ! 1) = ''running''"
    and e3: "fst (runChainedTask (ctx_with (\<lambda>i. completing)) ''chained_2'' (chain_of axc)) = None"
    and e4: "t_status (c_task (snd (runChainedTask (ctx_with (\<lambda>i. completing)) ''chained_2''
      (chain_of axc)))) = ''completed''"
    by blast+
  have "(0::nat) < length axc \<and> (0::nat) \<noteq> 1 \<and> (2::nat) < length axc \<and> (2::nat) \<noteq> 1"
    by (simp add: axc_def)
  with axc_hyps(5)
  have e0: "sub_passes (sub_outcome (ctx_with (\<lambda>i. completing)) ''chained_2'' (axc ! 0) 0)"
    and e5: "sub_passes (sub_outcome (ctx_with (\<lambda>i. completing)) ''chained_2'' (axc ! 2) 2)"
    by blast+
  show ?thesis
    by (intro conjI) (rule axc_hyps e0 e1 e2 e3 e4 e5)+
qed

section \<open>Properties of the task runner\<close>


lemma attempts_append [simp]: "attempts (xs @ ys) = attempts xs @ attempts ys"
  and closes_append [simp]: "closes (xs @ ys) = closes xs @ closes ys"
  and sleeps_append [simp]: "sleeps (xs @ ys) = sleeps xs @ sleeps ys"
  by (simp_all add: attempts_def closes_def sleeps_def)

lemma effects_Nil [simp]: "attempts [] = []" "closes [] = []" "sleeps [] = []"
  by (simp_all add: attempts_def closes_def sleeps_def)

lemma attempts_Cons [simp]:
  "attempts (e # es) = (case e of BodyRun n \<Rightarrow> [n] | _ \<Rightarrow> []) @ attempts es"
  by (simp add: attempts_def)

lemma closes_Cons [simp]:
  "closes (e # es) = (case e of BrowserClose b \<Rightarrow> [b] | _ \<Rightarrow> []) @ closes es"
  by (simp add: closes_def)

lemma sleeps_Cons [simp]:
  "sleeps (e # es) = (case e of Sleep d \<Rightarrow> [d] | _ \<Rightarrow> []) @ sleeps es"
  by (simp add: sleeps_def)

lemma task_log_effects [simp]:
  "r_effects (task_log E m st) = r_effects st"
  "r_runningBrowsers (task_log E m st) = r_runningBrowsers st"
  by (simp_all add: task_log_def)

lemma run_body_props:
  "r_effects (snd (run_body E tid n st)) = r_effects st @ [BodyRun n]"
  "fst (run_body E tid n st) = rc_body E n (r_task st) (r_shots st)"
  by (simp_all add: run_body_def Let_def)

lemma browser_close_props [simp]:
  "r_effects (browser_close E b st) = r_effects st @ [BrowserClose b]"
  "r_runningBrowsers (browser_close E b st) = r_runningBrowsers st"
  "t_status (r_task (browser_close E b st)) = t_status (r_task st)"
  "t_error (r_task (browser_close E b st)) = t_error (r_task st)"
  by (simp_all add: browser_close_def task_log_def Let_def)

lemma before_retry_props:
  "r_effects (before_retry E tid n (Some b) st) = r_effects st @ [BrowserClose b, Sleep 2000]"
  "r_effects (before_retry E tid n None st) = r_effects st @ [Sleep 2000]"
  by (simp_all add: before_retry_def close_quietly_def Let_def)

lemma handleTaskError_props:
  "t_status (r_task (handleTaskError E tid m brw st)) = ''error''"
  "t_error (r_task (handleTaskError E tid m brw st)) = Val m"
  "r_runningBrowsers (handleTaskError E tid m (Some b) st) tid = None"
  "attempts (r_effects (handleTaskError E tid m brw st)) = attempts (r_effects st)"
  "sleeps (r_effects (handleTaskError E tid m brw st)) = sleeps (r_effects st)"
  "closes (r_effects (handleTaskError E tid m (Some b) st)) = closes (r_effects st) @ [b]"
  by (simp_all add: handleTaskError_def Let_def task_log_def save_task_def addScreenshot_def
        split: option.splits capture_outcome.splits prod.splits)


text \<open>One step of the recursion, by the branch of the \<^verbatim>\<open>catch\<close> block taken.\<close>

lemma runJanusTask_retry:
  assumes "br_raised (rc_body E n (r_task st) (r_shots st)) = Some m"
    and "\<not> is_cookie_error m" and "is_context_destroyed m" and "n < MAX_RETRIES"
  shows "runJanusTask E tid n st
      = runJanusTask E tid (n + 1)
          (before_retry E tid n (map_option fst (br_browser (rc_body E n (r_task st) (r_shots st))))
             (snd (run_body E tid n st)))"
  using assms
  by (subst runJanusTask.simps) (simp add: run_body_def Let_def)

lemma runJanusTask_exhausted:
  assumes "br_raised (rc_body E n (r_task st) (r_shots st)) = Some m"
    and "\<not> is_cookie_error m" and "\<not> n < MAX_RETRIES"
  shows "runJanusTask E tid n st
      = handleTaskError E tid m (map_option fst (br_browser (rc_body E n (r_task st) (r_shots st))))
          (snd (run_body E tid n st))"
  using assms
  by (subst runJanusTask.simps) (simp add: run_body_def Let_def)

lemma runJanusTask_cookie:
  assumes "br_raised (rc_body E n (r_task st) (r_shots st)) = Some m"
    and "is_cookie_error m"
  shows "runJanusTask E tid n st
      = on_cookie_error E tid m (map_option fst (br_browser (rc_body E n (r_task st) (r_shots st))))
          (snd (run_body E tid n st))"
  using assms
  by (subst runJanusTask.simps) (simp add: run_body_def Let_def)

text \<open>From retry count \<open>n\<close> on, when every attempt obtains a browser and raises a
  navigation error.\<close>

lemma runJanusTask_from:
  assumes raised: "\<forall>n t ss. br_raised (rc_body E n t ss) = Some (msg n)"
    and browser: "\<forall>n t ss. br_browser (rc_body E n t ss) = Some (b n, p n)"
    and transient: "\<forall>n. is_context_destroyed (msg n) \<and> \<not> is_cookie_error (msg n)"
    and n: "n \<le> MAX_RETRIES"
  shows "t_status (r_task (runJanusTask E tid n st)) = ''error'' \<and>
         t_error (r_task (runJanusTask E tid n st)) = Val (msg MAX_RETRIES) \<and>
         attempts (r_effects (runJanusTask E tid n st))
           = attempts (r_effects st) @ [n..<MAX_RETRIES + 1] \<and>
         closes (r_effects (runJanusTask E tid n st))
           = closes (r_effects st) @ map b [n..<MAX_RETRIES + 1] \<and>
         sleeps (r_effects (runJanusTask E tid n st))
           = sleeps (r_effects st) @ replicate (MAX_RETRIES - n) 2000 \<and>
         r_runningBrowsers (runJanusTask E tid n st) tid = None"
  using n
proof (induction "MAX_RETRIES - n" arbitrary: n st)
  case 0
  then have n: "n = MAX_RETRIES" by simp
  have run: "runJanusTask E tid n st
      = handleTaskError E tid (msg n) (Some (b n)) (snd (run_body E tid n st))"
    using runJanusTask_exhausted [of E n st "msg n" tid] raised browser transient n by simp
  show ?case
    unfolding run
    by (simp add: handleTaskError_props run_body_props n)
next
  case (Suc d)
  then have lt: "n < MAX_RETRIES" by simp
  let ?st = "before_retry E tid n (Some (b n)) (snd (run_body E tid n st))"
  have run: "runJanusTask E tid n st = runJanusTask E tid (n + 1) ?st"
    using runJanusTask_retry [of E n st "msg n" tid] raised browser transient lt by simp
  have d: "d = MAX_RETRIES - (n + 1)" using Suc.hyps(2) by simp
  have le: "n + 1 \<le> MAX_RETRIES" using lt by simp
  note IH = Suc.hyps(1) [OF d le, of ?st]
  have upt: "[n..<MAX_RETRIES + 1] = n # [n + 1..<MAX_RETRIES + 1]"
    using lt by (simp add: upt_conv_Cons)
  have rep: "replicate (MAX_RETRIES - n) (2000::nat) = 2000 # replicate (MAX_RETRIES - (n + 1)) 2000"
    using lt by (cases "MAX_RETRIES - n") simp_all
  have eff: "r_effects ?st = r_effects st @ [BodyRun n, BrowserClose (b n), Sleep 2000]"
    by (simp add: before_retry_props run_body_props)
  show ?case
    unfolding run
    using IH by (simp only: eff upt rep) simp
qed

text \<open>
  Claim C3 (as amended). Let every attempt of a task obtain a browser and raise an error
  whose message contains \<^verbatim>\<open>Execution context was destroyed\<close> and neither
  \<^verbatim>\<open>refresh cookies\<close> nor \<^verbatim>\<open>Not logged in\<close>. Then \<^verbatim>\<open>runJanusTask\<close>, started with retry
  count 0, enters its \<^verbatim>\<open>try\<close> block with the retry counts 0 to \<^verbatim>\<open>MAX_RETRIES\<close> and no
  others, that is \<^verbatim>\<open>MAX_RETRIES + 1\<close> times; it closes the browser of each attempt, waits
  the fixed two seconds after each of the first \<^verbatim>\<open>MAX_RETRIES\<close> attempts, and the last
  attempt's error goes to the common error handler: the task ends in status \<^verbatim>\<open>error\<close>,
  and no browser is left registered for the task.
\<close>

theorem retry_ceiling:
  assumes "\<forall>n t ss. br_raised (rc_body E n t ss) = Some (msg n)"
    and "\<forall>n t ss. br_browser (rc_body E n t ss) = Some (b n, p n)"
    and "\<forall>n. is_context_destroyed (msg n) \<and> \<not> is_cookie_error (msg n)"
  shows "t_status (r_task (runJanusTask E taskId 0 st)) = ''error'' \<and>
         attempts (r_effects (runJanusTask E taskId 0 st))
           = attempts (r_effects st) @ [0..<MAX_RETRIES + 1] \<and>
         closes (r_effects (runJanusTask E taskId 0 st))
           = closes (r_effects st) @ map b [0..<MAX_RETRIES + 1] \<and>
         sleeps (r_effects (runJanusTask E taskId 0 st))
           = sleeps (r_effects st) @ replicate MAX_RETRIES 2000 \<and>
         r_runningBrowsers (runJanusTask E taskId 0 st) taskId = None"
  using runJanusTask_from [OF assms, of 0 taskId st] by simp


lemma navigation_error_class:
  "is_context_destroyed navigation_error" "\<not> is_cookie_error navigation_error"
  "\<not> includes_str navigation_error ''retries''"
  by (simp_all add: is_context_destroyed_def is_cookie_error_def navigation_error_def)

lemma login_error_class:
  "is_context_destroyed login_error" "is_cookie_error login_error"
  by (simp_all add: is_context_destroyed_def is_cookie_error_def login_error_def)

lemma always_raises_body:
  "\<forall>n t ss. br_raised (rc_body (always_raises m) n t ss) = Some m"
  "\<forall>n t ss. br_browser (rc_body (always_raises m) n t ss) = Some (7 + n, Some 4242)"
  by (simp_all add: always_raises_def)

lemma four_attempts: "[0..<MAX_RETRIES + 1] = [0, 1, 2, 3]"
  "map (\<lambda>n. 7 + n) [0..<MAX_RETRIES + 1] = [7, 8, 9, 10]"
  "replicate MAX_RETRIES (2000::nat) = [2000, 2000, 2000]"
  by (simp_all add: MAX_RETRIES_def upt_rec numeral_3_eq_3)

lemma on_cookie_error_props:
  "attempts (r_effects (on_cookie_error E tid m brw st)) = attempts (r_effects st)"
  "sleeps (r_effects (on_cookie_error E tid m brw st)) = sleeps (r_effects st)"
  "t_status (r_task (on_cookie_error E tid m brw st)) = ''error''"
  "t_error (r_task (on_cookie_error E tid m brw st)) = Val m"
  by (simp_all add: on_cookie_error_def close_quietly_def save_task_def task_log_def
        split: option.splits)

text \<open>The theorem for a task whose every attempt raises the navigation error of the
  browser library: four attempts, four browsers closed, three delays.\<close>

theorem retry_ceiling_witness:
  "(\<forall>n t ss. br_raised (rc_body (always_raises navigation_error) n t ss) = Some navigation_error) \<and>
   (\<forall>n t ss. br_browser (rc_body (always_raises navigation_error) n t ss)
      = Some (7 + n, Some 4242)) \<and>
   (\<forall>n::nat. is_context_destroyed navigation_error \<and> \<not> is_cookie_error navigation_error) \<and>
   t_status (r_task (runJanusTask (always_raises navigation_error) ''janus_1'' 0 fresh_run))
     = ''error'' \<and>
   attempts (r_effects (runJanusTask (always_raises navigation_error) ''janus_1'' 0 fresh_run))
     = [0, 1, 2, 3] \<and>
   closes (r_effects (runJanusTask (always_raises navigation_error) ''janus_1'' 0 fresh_run))
     = [7, 8, 9, 10] \<and>
   sleeps (r_effects (runJanusTask (always_raises navigation_error) ''janus_1'' 0 fresh_run))
     = [2000, 2000, 2000]"
proof -
  have c: "\<forall>n::nat. is_context_destroyed navigation_error \<and> \<not> is_cookie_error navigation_error"
    by (simp add: navigation_error_class)
  have e: "r_effects fresh_run = []" by (simp add: fresh_run_def)
  show ?thesis
    using retry_ceiling [OF always_raises_body(1) always_raises_body(2) c, of "''janus_1''" fresh_run]
      always_raises_body [of navigation_error] c
    by (simp only: four_attempts e effects_Nil append_Nil simp_thms) simp
qed

text \<open>In that run the task's error is the raised message, which says nothing of
  retries. And a task whose error message contains \<^verbatim>\<open>Not logged in\<close> besides
  \<^verbatim>\<open>Execution context was destroyed\<close> is not retried at all.\<close>

theorem retry_message_counterexample:
  "is_context_destroyed navigation_error \<and>
   t_error (r_task (runJanusTask (always_raises navigation_error) ''janus_1'' 0 fresh_run))
     = Val navigation_error \<and>
   \<not> includes_str navigation_error ''retries'' \<and>
   is_context_destroyed login_error \<and>
   attempts (r_effects (runJanusTask (always_raises login_error) ''janus_1'' 0 fresh_run)) = [0]"
proof -
  have c: "\<forall>n::nat. is_context_destroyed navigation_error \<and> \<not> is_cookie_error navigation_error"
    by (simp add: navigation_error_class)
  have a: "t_error (r_task (runJanusTask (always_raises navigation_error) ''janus_1'' 0 fresh_run))
     = Val navigation_error"
    using runJanusTask_from [OF always_raises_body(1) always_raises_body(2) c, of 0 "''janus_1''"
        fresh_run]
    by simp
  have "runJanusTask (always_raises login_error) ''janus_1'' 0 fresh_run
      = on_cookie_error (always_raises login_error) ''janus_1'' login_error
          (map_option fst (br_browser (rc_body (always_raises login_error) 0 (r_task fresh_run)
             (r_shots fresh_run))))
          (snd (run_body (always_raises login_error) ''janus_1'' 0 fresh_run))"
    by (rule runJanusTask_cookie) (simp_all add: always_raises_body login_error_class)
  then have b: "attempts (r_effects (runJanusTask (always_raises login_error) ''janus_1'' 0 fresh_run))
      = [0]"
    by (simp add: on_cookie_error_props run_body_props fresh_run_def)
  show ?thesis
    using a b navigation_error_class login_error_class by simp
qed

section \<open>Properties of restart and of the screenshots\<close>


lemma reset_task_chain:
  assumes "t_subtasks t0 = Some sts"
  shows "restarted_parent ts (reset_task ts t0)"
    and "subtasks_of (reset_task ts t0) = map reset_subtask sts"
    and "t_subtasks (reset_task ts t0) \<noteq> None"
  using assms
  by (simp_all add: reset_task_def restarted_parent_def subtasks_of_def Let_def)

lemma cleared_reset: "cleared_subtask (reset_subtask s)"
  by (simp add: cleared_subtask_def reset_subtask_def)

lemma subtasks_after_updates:
  "t_subtasks (replace_subtasks u (apply_updates u t0))
     = (case u_subtasks u of None \<Rightarrow> t_subtasks t0 | Some sts \<Rightarrow> Some (map new_subtask sts))"
  by (simp add: replace_subtasks_def apply_updates_def split: option.splits)

lemma restart_found:
  assumes "find_task taskId db sv = Some t0" and "t_status t0 \<noteq> ''running''"
  shows "restart ts taskId u db sv
     = (Restarted taskId,
        sv\<lparr>sv_tasks := (sv_tasks sv)(taskId \<mapsto> reset_task ts (replace_subtasks u (apply_updates u t0))),
           sv_shots := delete_rows taskId
                         ((sv_shots sv)\<lparr>ss_mem := (ss_mem (sv_shots sv))(taskId \<mapsto> [])\<rparr>),
           sv_saved := sv_saved sv @ [(taskId, reset_task ts (replace_subtasks u (apply_updates u t0)))]\<rparr>,
        Some (start_runner taskId (reset_task ts (replace_subtasks u (apply_updates u t0)))))"
  using assms
  by (auto simp add: restart_def find_task_def Let_def split: option.splits db_answer.splits)


text \<open>
  Claim C8 (as amended). Restarting a task that is found, is not running and has subtasks
  (its own, or those of the request) answers \<^verbatim>\<open>restarted\<close> and starts the chained runner
  with the same task id and the reset task, which is also the task stored in memory under
  that id and saved: the parent is set to \<^verbatim>\<open>running\<close> at once, without passing through
  \<^verbatim>\<open>pending\<close>, with a new start time, no error, no end time and the single log line of
  the restart, \<^verbatim>\<open>currentIndex\<close> is 0, and every subtask is \<^verbatim>\<open>pending\<close> with empty
  logs and without error, result, start and end time.
\<close>

theorem restart_resets_chain:
  assumes "find_task taskId db sv = Some t0" and "t_status t0 \<noteq> ''running''"
    and "t_subtasks t0 \<noteq> None \<or> u_subtasks u \<noteq> None"
  shows "fst (restart ts taskId u db sv) = Restarted taskId \<and>
         (\<exists>t. snd (snd (restart ts taskId u db sv)) = Some (StartChained taskId t) \<and>
              sv_tasks (fst (snd (restart ts taskId u db sv))) taskId = Some t \<and>
              sv_saved (fst (snd (restart ts taskId u db sv))) = sv_saved sv @ [(taskId, t)] \<and>
              restarted_parent ts t \<and>
              (\<forall>s \<in> set (subtasks_of t). cleared_subtask s) \<and>
              length (subtasks_of t)
                = (case u_subtasks u of None \<Rightarrow> length (subtasks_of t0) | Some sts \<Rightarrow> length sts))"
proof -
  let ?t1 = "replace_subtasks u (apply_updates u t0)"
  have "\<exists>sts. t_subtasks ?t1 = Some sts \<and>
      length sts = (case u_subtasks u of None \<Rightarrow> length (subtasks_of t0) | Some l \<Rightarrow> length l)"
  proof (cases "u_subtasks u")
    case None
    then obtain y where "t_subtasks t0 = Some y" using assms(3) by auto
    then show ?thesis using None by (simp add: subtasks_after_updates subtasks_of_def)
  next
    case (Some l)
    then show ?thesis by (simp add: subtasks_after_updates)
  qed
  then obtain sts where sts: "t_subtasks ?t1 = Some sts"
    and len: "length sts = (case u_subtasks u of None \<Rightarrow> length (subtasks_of t0)
                            | Some l \<Rightarrow> length l)"
    by blast
  note r = reset_task_chain [OF sts, of ts]
  have start: "start_runner taskId (reset_task ts ?t1) = StartChained taskId (reset_task ts ?t1)"
    using r(3) by (simp add: start_runner_def)
  have cl: "\<forall>s \<in> set (subtasks_of (reset_task ts ?t1)). cleared_subtask s"
    by (auto simp add: r(2) cleared_reset)
  show ?thesis
    unfolding restart_found [OF assms(1,2)]
    using r(1) cl len start by (simp add: r(2))
qed







lemma done_hyps:
  "find_task ''chained_1'' NoPool (done_server ss) = Some done_chain"
  "t_status done_chain \<noteq> ''running''"
  "t_subtasks done_chain \<noteq> None \<or> u_subtasks no_updates \<noteq> None"
  by (simp_all add: find_task_def done_server_def done_chain_def)

lemma done_server_parts:
  "sv_shots (done_server ss) = ss" "sv_saved (done_server ss) = []"
  by (simp_all add: done_server_def)

text \<open>The theorem for a completed chain of two completed subtasks.\<close>

lemma done_subtasks: "t_subtasks done_chain = Some [done_subtask ''a'', done_subtask ''b'']"
  by (simp add: done_chain_def)

theorem restart_resets_chain_witness:
  "find_task ''chained_1'' NoPool (done_server empty_store) = Some done_chain \<and>
   t_status done_chain \<noteq> ''running'' \<and>
   t_subtasks done_chain = Some [done_subtask ''a'', done_subtask ''b''] \<and>
   fst (restart ''2024-01-02T00:00:00.000Z'' ''chained_1'' no_updates NoPool
          (done_server empty_store)) = Restarted ''chained_1'' \<and>
   (\<exists>t. snd (snd (restart ''2024-01-02T00:00:00.000Z'' ''chained_1'' no_updates NoPool
                (done_server empty_store))) = Some (StartChained ''chained_1'' t) \<and>
        sv_tasks (fst (snd (restart ''2024-01-02T00:00:00.000Z'' ''chained_1'' no_updates NoPool
                (done_server empty_store)))) ''chained_1'' = Some t \<and>
        restarted_parent ''2024-01-02T00:00:00.000Z'' t \<and>
        (\<forall>s \<in> set (subtasks_of t). cleared_subtask s) \<and>
        length (subtasks_of t) = 2)"
proof -
  have two: "(case u_subtasks no_updates of None \<Rightarrow> length (subtasks_of done_chain)
              | Some sts \<Rightarrow> length sts) = 2"
    by (simp add: no_updates_def done_chain_def subtasks_of_def)
  show ?thesis
    using restart_resets_chain [OF done_hyps(1) [of empty_store] done_hyps(2) done_hyps(3),
        where ts = "''2024-01-02T00:00:00.000Z''"]
      done_hyps(1) [of empty_store] done_hyps(2) done_subtasks
    by (simp only: two) blast
qed

text \<open>
  A completed chain is restarted: the task is \<^verbatim>\<open>running\<close> in the one state the handler
  saves, in the task it leaves in memory and in the task it hands to the runner. It is
  \<^verbatim>\<open>completed\<close> before and \<^verbatim>\<open>running\<close> after, and \<^verbatim>\<open>pending\<close> at no point: there is no
  cycle from \<^verbatim>\<open>pending\<close> to \<^verbatim>\<open>running\<close>.
\<close>

theorem restart_not_pending_counterexample:
  "t_status done_chain = ''completed'' \<and>
   map (\<lambda>(i, t). t_status t)
     (sv_saved (fst (snd (restart ''2024-01-02T00:00:00.000Z'' ''chained_1'' no_updates NoPool
        (done_server empty_store))))) = [''running''] \<and>
   map_option t_status
     (sv_tasks (fst (snd (restart ''2024-01-02T00:00:00.000Z'' ''chained_1'' no_updates NoPool
        (done_server empty_store)))) ''chained_1'') = Some ''running'' \<and>
   map_option started_status
     (snd (snd (restart ''2024-01-02T00:00:00.000Z'' ''chained_1'' no_updates NoPool
        (done_server empty_store)))) = Some ''running'' \<and>
   ''running'' \<noteq> ''pending''"
  by (simp add: restart_found [OF done_hyps(1,2)] done_server_parts started_status_def
        start_runner_def reset_task_def replace_subtasks_def apply_updates_def
        no_updates_def done_chain_def Let_def)




end
